theory Spec2Isabelle
  imports Main "HOL-Library.Sublist" "HOL-Library.Multiset" "HOL-Library.Product_Lexorder"
    "HOL-Library.AList"
begin

section \<open>Python values used by both scripts\<close>

text \<open>
  The two scripts \<^verbatim>\<open>scrape_videos.py\<close> (the Collector) and \<^verbatim>\<open>download_videos.py\<close>
  (the Fetcher) are embedded as pure functions. Exceptions are values of \<open>error\<close>; the
  browser, the download backends, the ledger file and the output directory are passed in
  and returned explicitly.
\<close>

datatype error =
    AssertionError | TypeError | ValueError | UnboundLocalError | KeyError
  | FileNotFoundError | NotADirectoryError | FileExistsError | OSError

text \<open>
  A function either returns with a final state, or raises with the state that its side
  effects have produced up to the raise.
\<close>

datatype 's outcome = Returned 's | Raised error 's

fun final :: "'s outcome \<Rightarrow> 's" where
  "final (Returned s) = s"
| "final (Raised e s) = s"

subsection \<open>Strings\<close>

text \<open>\<^verbatim>\<open>s.find(sub)\<close>: the lowest index at which \<open>sub\<close> starts in \<open>s\<close>, or \<open>-1\<close>.\<close>

fun find_from :: "nat \<Rightarrow> string \<Rightarrow> string \<Rightarrow> int" where
  "find_from i [] sub = (if sub = [] then int i else - 1)"
| "find_from i (c # cs) sub =
     (if prefix sub (c # cs) then int i else find_from (Suc i) cs sub)"

definition py_find :: "string \<Rightarrow> string \<Rightarrow> int" where
  "py_find s sub = find_from 0 s sub"

text \<open>\<^verbatim>\<open>sub in s\<close> on strings.\<close>

definition py_in :: "string \<Rightarrow> string \<Rightarrow> bool" where
  "py_in sub s = (0 \<le> py_find s sub)"

text \<open>
  Slices \<^verbatim>\<open>s[a:b]\<close> and \<^verbatim>\<open>s[a:]\<close>: a negative bound counts from the end, and every
  bound is clamped to the length.
\<close>

definition py_index :: "'a list \<Rightarrow> int \<Rightarrow> nat" where
  "py_index s a = (let n = int (length s) in nat (if a < 0 then max 0 (a + n) else min a n))"

definition py_slice :: "'a list \<Rightarrow> int \<Rightarrow> int \<Rightarrow> 'a list" where
  "py_slice s a b = take (py_index s b - py_index s a) (drop (py_index s a) s)"

definition py_slice_from :: "'a list \<Rightarrow> int \<Rightarrow> 'a list" where
  "py_slice_from s a = drop (py_index s a) s"

text \<open>
  \<^verbatim>\<open>os.path.split\<close> of \<^verbatim>\<open>posixpath\<close>: the path is cut after its last \<^verbatim>\<open>/\<close>; the head
  loses its trailing slashes unless it consists of slashes only.
\<close>

definition os_path_split :: "string \<Rightarrow> string \<times> string" where
  "os_path_split p =
     (let i = length (dropWhile (\<lambda>c. c \<noteq> CHR ''/'') (rev p));
          head = take i p;
          tail = drop i p
      in (if head \<noteq> [] \<and> head \<noteq> replicate (length head) (CHR ''/'')
          then rev (dropWhile (\<lambda>c. c = CHR ''/'') (rev head)) else head, tail))"

text \<open>\<^verbatim>\<open>os.path.join(a, b)\<close> of \<^verbatim>\<open>posixpath\<close> for two components.\<close>

definition os_path_join :: "string \<Rightarrow> string \<Rightarrow> string" where
  "os_path_join a b =
     (if prefix ''/'' b then b
      else if a = [] \<or> suffix ''/'' a then a @ b
      else a @ ''/'' @ b)"

text \<open>\<^verbatim>\<open>s.split('.')[0]\<close>: the part of \<open>s\<close> before its first dot, all of \<open>s\<close> without one.\<close>

definition split_dot_0 :: "string \<Rightarrow> string" where
  "split_dot_0 s = takeWhile (\<lambda>c. c \<noteq> CHR ''.'') s"

text \<open>\<^verbatim>\<open>str(n)\<close> for an integer.\<close>

fun digits :: "nat \<Rightarrow> nat \<Rightarrow> string" where
  "digits 0 n = []"
| "digits (Suc fuel) n =
     (if n < 10 then [char_of (48 + n)]
      else digits fuel (n div 10) @ [char_of (48 + n mod 10)])"

definition str_int :: "int \<Rightarrow> string" where
  "str_int n = (if n < 0 then CHR ''-'' # digits (Suc (nat (- n))) (nat (- n))
                else digits (Suc (nat n)) (nat n))"

section \<open>The Fetcher's file names\<close>

text \<open>
  \<^verbatim>\<open>_get_youtube_video_id\<close> and \<^verbatim>\<open>_get_bilibili_video_id\<close> of \<^verbatim>\<open>download_videos.py\<close>
  (an Isabelle name cannot start with an underscore). The \<^verbatim>\<open>assert\<close> is the
  \<open>AssertionError\<close> branch.
\<close>

definition get_youtube_video_id :: "string \<Rightarrow> error + string" where
  "get_youtube_video_id video_url =
     (if \<not> py_in ''youtube'' video_url then Inl AssertionError
      else let (host, video_id) = os_path_split video_url;
               (host, video_id) = (if length video_id = 0 then os_path_split host
                                   else (host, video_id));
               ss = py_find video_id ''v='' + 2;
               ee = ss + py_find (py_slice_from video_id ss) ''&''
           in Inr (py_slice video_id ss ee))"

definition get_bilibili_video_id :: "string \<Rightarrow> error + string" where
  "get_bilibili_video_id video_url =
     (if \<not> py_in ''bilibili'' video_url then Inl AssertionError
      else let (host, video_id) = os_path_split video_url;
               (host, video_id) = (if length video_id = 0 then os_path_split host
                                   else (host, video_id))
           in Inr video_id)"

section \<open>The ledger\<close>

text \<open>
  One row of the ledger as the Collector writes it: the columns \<^verbatim>\<open>class_id\<close>,
  \<^verbatim>\<open>class\<close>, \<^verbatim>\<open>video_id\<close>, \<^verbatim>\<open>video_title\<close> and \<^verbatim>\<open>video_url\<close>. The Fetcher adds the
  columns \<^verbatim>\<open>video_name\<close> and \<^verbatim>\<open>download\<close>. A data frame is the list of its rows; its
  index is the position in the list, as \<^verbatim>\<open>read_csv\<close> and \<^verbatim>\<open>reset_index(drop=True)\<close>
  produce it. Reading and writing the CSV file is the identity on rows (the parser is
  outside the embedding), and a title is a string.
\<close>

record url_row =
  class_id :: int
  class_name :: string
  video_id :: int
  video_title :: string
  video_url :: string

record video = url_row +
  video_name :: string
  download :: bool

section \<open>The Collector (\<^verbatim>\<open>scrape_videos.py\<close>)\<close>

text \<open>
  A scraped element with the two attributes the code reads: \<^verbatim>\<open>href\<close>, which
  \<^verbatim>\<open>get_attribute\<close> may report as \<^verbatim>\<open>None\<close>, and the title (\<^verbatim>\<open>title\<close> on YouTube,
  \<^verbatim>\<open>text\<close> on Bilibili). The browser is a function from its own state and the address
  of the result page to the elements that \<^verbatim>\<open>find_elements\<close> returns there (for
  Bilibili: the second anchor of every card).
\<close>

record element =
  href :: "string option"
  title :: string

type_synonym 'w driver = "'w \<Rightarrow> string \<Rightarrow> element list \<times> 'w"

text \<open>\<^verbatim>\<open>keywords.replace(" ", r)\<close> and \<^verbatim>\<open>platform.lower()\<close> (ASCII letters).\<close>

definition replace_space :: "string \<Rightarrow> string \<Rightarrow> string" where
  "replace_space r s = concat (map (\<lambda>c. if c = CHR '' '' then r else [c]) s)"

definition lower_char :: "char \<Rightarrow> char" where
  "lower_char c = (let n = (of_char c :: nat) in if 65 \<le> n \<and> n \<le> 90 then char_of (n + 32) else c)"

definition py_lower :: "string \<Rightarrow> string" where
  "py_lower s = map lower_char s"

text \<open>
  The loop of \<^verbatim>\<open>get_youtube_urls\<close> over the elements: an element without address is
  skipped, a pair on the omit list is skipped, and the loop breaks once \<open>n\<close> pairs are
  collected (the test comes after the append).
\<close>

fun youtube_scan ::
  "int \<Rightarrow> (string \<times> string) list \<Rightarrow> element list \<Rightarrow> (string \<times> string) list \<Rightarrow> int
   \<Rightarrow> (string \<times> string) list" where
  "youtube_scan n omit_videos [] videos cnt = videos"
| "youtube_scan n omit_videos (elem # elements) videos cnt =
     (case href elem of
        None \<Rightarrow> youtube_scan n omit_videos elements videos cnt
      | Some url \<Rightarrow>
          if (title elem, url) \<notin> set omit_videos
          then (if cnt + 1 \<ge> n then videos @ [(title elem, url)]
                else youtube_scan n omit_videos elements (videos @ [(title elem, url)]) (cnt + 1))
          else youtube_scan n omit_videos elements videos cnt)"

definition get_youtube_urls ::
  "'w driver \<Rightarrow> 'w \<Rightarrow> string \<Rightarrow> int \<Rightarrow> (string \<times> string) list
   \<Rightarrow> (string \<times> string) list \<times> string \<times> 'w" where
  "get_youtube_urls driver w keywords n omit_videos =
     (let query = ''https://www.youtube.com/results?search_query='' @ replace_space ''+'' keywords;
          (elements, w') = driver w query
      in (youtube_scan n omit_videos elements [] 0, query, w'))"

text \<open>
  The loop of \<^verbatim>\<open>get_bilibili_urls\<close>. Its guard
  \<^verbatim>\<open>(url_ is None) | ('video' not in url_)\<close> evaluates both operands, and
  \<^verbatim>\<open>'video' not in None\<close> raises \<open>TypeError\<close>.
\<close>

fun bilibili_scan ::
  "int \<Rightarrow> (string \<times> string) list \<Rightarrow> element list \<Rightarrow> (string \<times> string) list \<Rightarrow> int
   \<Rightarrow> error + (string \<times> string) list" where
  "bilibili_scan n omit_videos [] videos cnt = Inr videos"
| "bilibili_scan n omit_videos (elem # elements) videos cnt =
     (case href elem of
        None \<Rightarrow> Inl TypeError
      | Some url \<Rightarrow>
          if \<not> py_in ''video'' url then bilibili_scan n omit_videos elements videos cnt
          else if (title elem, url) \<notin> set omit_videos
          then (if cnt + 1 \<ge> n then Inr (videos @ [(title elem, url)])
                else bilibili_scan n omit_videos elements (videos @ [(title elem, url)]) (cnt + 1))
          else bilibili_scan n omit_videos elements videos cnt)"

definition get_bilibili_urls ::
  "'w driver \<Rightarrow> 'w \<Rightarrow> string \<Rightarrow> int \<Rightarrow> (string \<times> string) list
   \<Rightarrow> (error + (string \<times> string) list) \<times> string \<times> 'w" where
  "get_bilibili_urls driver w keywords n omit_videos =
     (let query = ''https://search.bilibili.com/all?keyword='' @ replace_space ''%20'' keywords;
          (elements, w') = driver w query
      in (bilibili_scan n omit_videos elements [] 0, query, w'))"

text \<open>
  The state of one run of \<^verbatim>\<open>get_urls\<close>: the ledger file (\<open>None\<close> while it does not
  exist), the data frame \<^verbatim>\<open>urls\<close>, the \<^verbatim>\<open>count_tracker\<close>, the addresses the browser
  was sent to, in order, and the browser's state.
\<close>

record 'w collector =
  ledger_file :: "url_row list option"
  urls :: "url_row list"
  count_tracker :: "(int \<times> string \<times> int) list"
  queries :: "string list"
  browser :: 'w

datatype num_videos = NumInt int | NumList "int list" | NumOther

text \<open>The rows \<^verbatim>\<open>range(n_exg, n)\<close> numbers and appends for one class.\<close>

definition new_rows :: "int \<Rightarrow> string \<Rightarrow> int \<Rightarrow> (string \<times> string) list \<Rightarrow> url_row list" where
  "new_rows cid cls n_exg found =
     map (\<lambda>((t, u), k). \<lparr>class_id = cid, class_name = cls, video_id = k,
                          video_title = t, video_url = u\<rparr>)
         (zip found [n_exg..n_exg + int (length found) - 1])"

definition omit_list :: "int \<Rightarrow> url_row list \<Rightarrow> (string \<times> string) list" where
  "omit_list cid rows =
     map (\<lambda>r. (video_title r, video_url r)) (filter (\<lambda>r. class_id r = cid) rows)"

text \<open>The body of the loop over \<^verbatim>\<open>enumerate(classes)\<close>.\<close>

definition search_class ::
  "'w driver \<Rightarrow> string \<Rightarrow> string \<Rightarrow> int list \<Rightarrow> nat \<Rightarrow> string \<Rightarrow> 'w collector
   \<Rightarrow> 'w collector outcome" where
  "search_class driver additional_keywords platform nums cid cls st =
     (let omit_videos = omit_list (int cid) (urls st);
          n = nums ! cid;
          n_exg = int (length omit_videos)
      in if n_exg \<ge> n
         then Returned (st\<lparr>count_tracker := count_tracker st @ [(int cid, cls, n_exg)]\<rparr>)
         else let keywords = cls @ '' '' @ additional_keywords;
                  n_new = n - n_exg
              in if py_lower platform = ''youtube''
                 then (case get_youtube_urls driver (browser st) keywords n_new omit_videos of
                         (found, q, w) \<Rightarrow>
                           Returned (st\<lparr>urls := urls st @ new_rows (int cid) cls n_exg found,
                                       count_tracker := count_tracker st
                                          @ [(int cid, cls, n_exg + int (length found))],
                                       queries := queries st @ [q], browser := w\<rparr>))
                 else if py_lower platform = ''bilibili''
                 then (case get_bilibili_urls driver (browser st) keywords n_new omit_videos of
                         (Inl e, q, w) \<Rightarrow> Raised e (st\<lparr>queries := queries st @ [q], browser := w\<rparr>)
                       | (Inr found, q, w) \<Rightarrow>
                           Returned (st\<lparr>urls := urls st @ new_rows (int cid) cls n_exg found,
                                       count_tracker := count_tracker st
                                          @ [(int cid, cls, n_exg + int (length found))],
                                       queries := queries st @ [q], browser := w\<rparr>))
                 else Raised ValueError st)"

fun search_classes ::
  "'w driver \<Rightarrow> string \<Rightarrow> string \<Rightarrow> int list \<Rightarrow> (nat \<times> string) list \<Rightarrow> 'w collector
   \<Rightarrow> 'w collector outcome" where
  "search_classes driver additional_keywords platform nums [] st = Returned st"
| "search_classes driver additional_keywords platform nums ((cid, cls) # classes) st =
     (case search_class driver additional_keywords platform nums cid cls st of
        Raised e st' \<Rightarrow> Raised e st'
      | Returned st' \<Rightarrow> search_classes driver additional_keywords platform nums classes st')"

text \<open>\<^verbatim>\<open>urls.sort_values(['class_id', 'video_id'])\<close>.\<close>

definition sort_values :: "url_row list \<Rightarrow> url_row list" where
  "sort_values rows = sort_key (\<lambda>r. (class_id r, video_id r)) rows"

text \<open>
  \<^verbatim>\<open>get_urls\<close>, from the file and the browser it finds. A missing ledger file is
  created with the header only before \<^verbatim>\<open>num_videos\<close> is looked at; the platform is
  looked at inside the loop, for a class that needs a search; the file is rewritten at the
  end of a run that raised nothing.
\<close>

definition get_urls ::
  "'w driver \<Rightarrow> string list \<Rightarrow> num_videos \<Rightarrow> string \<Rightarrow> string \<Rightarrow> url_row list option \<Rightarrow> 'w
   \<Rightarrow> 'w collector outcome" where
  "get_urls driver classes num_videos additional_keywords platform file w =
     (let st = (case file of
                  Some rows \<Rightarrow> \<lparr>ledger_file = Some rows, urls = rows, count_tracker = [],
                                queries = [], browser = w\<rparr>
                | None \<Rightarrow> \<lparr>ledger_file = Some [], urls = [], count_tracker = [],
                           queries = [], browser = w\<rparr>)
      in case num_videos of
           NumOther \<Rightarrow> Raised TypeError st
         | NumList ns \<Rightarrow>
             if length ns \<noteq> length classes then Raised AssertionError st
             else (case search_classes driver additional_keywords platform ns
                          (enumerate 0 classes) st of
                     Raised e st' \<Rightarrow> Raised e st'
                   | Returned st' \<Rightarrow>
                       Returned (st'\<lparr>ledger_file := Some (sort_values (urls st')),
                                    urls := sort_values (urls st')\<rparr>))
         | NumInt k \<Rightarrow>
             (case search_classes driver additional_keywords platform
                     (replicate (length classes) k) (enumerate 0 classes) st of
                Raised e st' \<Rightarrow> Raised e st'
              | Returned st' \<Rightarrow>
                  Returned (st'\<lparr>ledger_file := Some (sort_values (urls st')),
                               urls := sort_values (urls st')\<rparr>)))"

section \<open>The Fetcher (\<^verbatim>\<open>download_videos.py\<close>)\<close>

subsection \<open>The output directory\<close>

text \<open>
  What the code can see of the path \<^verbatim>\<open>output_root\<close>: nothing, something that is no
  directory, or a directory with named entries. An entry is a file, or a directory with
  the names \<^verbatim>\<open>os.listdir\<close> reports in it.
\<close>

datatype node = File | Dir "string list"

datatype output_tree = Missing | Plain_File | Directory "(string \<times> node) list"

text \<open>\<^verbatim>\<open>if not os.path.isdir(output_root): os.makedirs(output_root)\<close>.\<close>

fun makedirs_root :: "output_tree \<Rightarrow> error + output_tree" where
  "makedirs_root (Directory entries) = Inr (Directory entries)"
| "makedirs_root Missing = Inr (Directory [])"
| "makedirs_root Plain_File = Inl FileExistsError"

text \<open>\<^verbatim>\<open>if not os.path.isdir(output_dir): os.makedirs(output_dir)\<close> for the entry \<open>name\<close>.\<close>

fun makedirs_class :: "string \<Rightarrow> output_tree \<Rightarrow> error + output_tree" where
  "makedirs_class name (Directory entries) =
     (case map_of entries name of
        Some (Dir files) \<Rightarrow> Inr (Directory entries)
      | Some File \<Rightarrow> Inl FileExistsError
      | None \<Rightarrow> Inr (Directory (AList.update name (Dir []) entries)))"
| "makedirs_class name Missing = Inr (Directory [(name, Dir [])])"
| "makedirs_class name Plain_File = Inl NotADirectoryError"

text \<open>\<^verbatim>\<open>try: os.rmdir(output_dir) except: pass\<close>: only an empty directory goes.\<close>

fun rmdir_class :: "string \<Rightarrow> output_tree \<Rightarrow> output_tree" where
  "rmdir_class name (Directory entries) =
     (case map_of entries name of
        Some (Dir []) \<Rightarrow> Directory (AList.delete name entries)
      | _ \<Rightarrow> Directory entries)"
| "rmdir_class name tr = tr"

text \<open>\<^verbatim>\<open>os.rmdir(output_root)\<close>, which is not guarded.\<close>

fun rmdir_root :: "output_tree \<Rightarrow> error + output_tree" where
  "rmdir_root (Directory []) = Inr Missing"
| "rmdir_root (Directory (entry # entries)) = Inl OSError"
| "rmdir_root Missing = Inl FileNotFoundError"
| "rmdir_root Plain_File = Inl NotADirectoryError"

text \<open>The files a download leaves in the directory \<open>name\<close>.\<close>

fun add_files :: "string \<Rightarrow> string list \<Rightarrow> output_tree \<Rightarrow> output_tree" where
  "add_files name new (Directory entries) =
     (case map_of entries name of
        Some (Dir files) \<Rightarrow>
          Directory (AList.update name
                       (Dir (files @ filter (\<lambda>f. f \<notin> set files) (remdups new))) entries)
      | _ \<Rightarrow> Directory entries)"
| "add_files name new tr = tr"

subsection \<open>The download primitives\<close>

text \<open>
  A download backend (\<^verbatim>\<open>YoutubeDL\<close>, \<^verbatim>\<open>pytube\<close>, \<^verbatim>\<open>you-get\<close>) is outside the code. It
  is called with its own state (the network), the address, the file name and the
  directory, and answers whether it finished without an exception, with the names of the
  files it has left in the directory, and with its new state.
\<close>

type_synonym 'w backend = "'w \<Rightarrow> string \<Rightarrow> string \<Rightarrow> string \<Rightarrow> bool \<times> string list \<times> 'w"

record 'w backends =
  youtube_dl :: "'w backend"
  pytube :: "'w backend"
  you_get :: "'w backend"

text \<open>
  \<^verbatim>\<open>_download_youtube_video\<close>: \<^verbatim>\<open>YoutubeDL\<close> first, \<^verbatim>\<open>pytube\<close> when that raised;
  \<^verbatim>\<open>_download_bilibili_video\<close>: \<^verbatim>\<open>you-get\<close>. Neither raises.
\<close>

definition download_youtube_video :: "'w backends \<Rightarrow> 'w backend" where
  "download_youtube_video B w url file output_dir =
     (case youtube_dl B w url file output_dir of
        (True, files, w1) \<Rightarrow> (True, files, w1)
      | (False, files, w1) \<Rightarrow>
          (case pytube B w1 url file output_dir of
             (ok, files2, w2) \<Rightarrow> (ok, files @ files2, w2)))"

definition download_bilibili_video :: "'w backends \<Rightarrow> 'w backend" where
  "download_bilibili_video B w url file output_dir =
     you_get B w url file output_dir"

subsection \<open>\<^verbatim>\<open>download_videos\<close>\<close>

text \<open>
  The state of a run: the data frame \<^verbatim>\<open>videos\<close>, which is changed in place, the
  \<^verbatim>\<open>count_tracker\<close>, the output directory, the calls of a download primitive so far
  (row index, address, file name, directory) and the network.
\<close>

record 'w fetcher =
  videos :: "video list"
  counts :: "(int \<times> string \<times> int) list"
  tree :: output_tree
  requests :: "(nat \<times> string \<times> string \<times> string) list"
  network :: 'w

text \<open>\<^verbatim>\<open>videos[['class_id', 'class']].drop_duplicates()\<close> keeps each first occurrence.\<close>

fun drop_duplicates :: "'a list \<Rightarrow> 'a list" where
  "drop_duplicates [] = []"
| "drop_duplicates (x # xs) = x # drop_duplicates (removeAll x xs)"

text \<open>
  What one call of the primitive does to the state: the request is noted, the files
  appear in the directory of the class, and \<^verbatim>\<open>videos.loc[i, 'download']\<close> is set.
\<close>

definition record_download ::
  "nat \<Rightarrow> string \<Rightarrow> string \<Rightarrow> string \<Rightarrow> string \<Rightarrow> bool \<times> string list \<times> 'w \<Rightarrow> 'w fetcher
   \<Rightarrow> 'w fetcher" where
  "record_download i url file output_dir name result st =
     (case result of
        (ok, files, w) \<Rightarrow>
          st\<lparr>videos := (videos st)[i := (videos st ! i)\<lparr>download := ok\<rparr>],
             tree := add_files name files (tree st),
             requests := requests st @ [(i, url, file, output_dir)],
             network := w\<rparr>)"

text \<open>
  The loop over \<^verbatim>\<open>videos_by_class.iterrows()\<close>. The rows are those of the copy taken
  before the loop; \<open>cnt\<close> is \<^verbatim>\<open>count_by_class\<close>. With a platform that is neither
  \<^verbatim>\<open>youtube\<close> nor \<^verbatim>\<open>bilibili\<close> the variable \<^verbatim>\<open>download\<close> is read before any assignment.
\<close>

fun download_rows ::
  "'w backends \<Rightarrow> string \<Rightarrow> string \<Rightarrow> string \<Rightarrow> string \<Rightarrow> int option \<Rightarrow> (nat \<times> video) list
   \<Rightarrow> int \<Rightarrow> 'w fetcher \<Rightarrow> (int \<times> 'w fetcher) outcome" where
  "download_rows B platform ext output_dir name cap [] cnt st = Returned (cnt, st)"
| "download_rows B platform ext output_dir name cap ((i, row) # rows) cnt st =
     (if (case cap of None \<Rightarrow> False | Some k \<Rightarrow> cnt \<ge> k) then Returned (cnt, st)
      else if download row then download_rows B platform ext output_dir name cap rows cnt st
      else if platform = ''youtube''
      then (case download_youtube_video B (network st) (video_url row) (video_name row @ ext)
                   output_dir of
              (ok, files, w) \<Rightarrow>
                download_rows B platform ext output_dir name cap rows
                  (cnt + (if ok then 1 else 0))
                  (record_download i (video_url row) (video_name row @ ext) output_dir name
                     (ok, files, w) st))
      else if platform = ''bilibili''
      then (case download_bilibili_video B (network st) (video_url row) (video_name row)
                   output_dir of
              (ok, files, w) \<Rightarrow>
                download_rows B platform ext output_dir name cap rows
                  (cnt + (if ok then 1 else 0))
                  (record_download i (video_url row) (video_name row) output_dir name
                     (ok, files, w) st))
      else Raised UnboundLocalError (cnt, st))"

text \<open>The rows of a class with their index, and \<^verbatim>\<open>sum(videos_by_class['download'])\<close>.\<close>

definition videos_by_class :: "int \<Rightarrow> video list \<Rightarrow> (nat \<times> video) list" where
  "videos_by_class cid vs = filter (\<lambda>(i, r). class_id r = cid) (enumerate 0 vs)"

definition count_downloaded :: "int \<Rightarrow> video list \<Rightarrow> int" where
  "count_downloaded cid vs = int (length (filter (\<lambda>r. class_id r = cid \<and> download r) vs))"

text \<open>The loop over the classes.\<close>

fun download_classes ::
  "'w backends \<Rightarrow> string \<Rightarrow> int option \<Rightarrow> string \<Rightarrow> string \<Rightarrow> (int \<times> string) list
   \<Rightarrow> 'w fetcher \<Rightarrow> 'w fetcher outcome" where
  "download_classes B output_root cap platform ext [] st = Returned st"
| "download_classes B output_root cap platform ext ((cid, cls) # classes) st =
     (case makedirs_class (str_int cid) (tree st) of
        Inl e \<Rightarrow> Raised e st
      | Inr tr \<Rightarrow>
          (case download_rows B platform ext (os_path_join output_root (str_int cid))
                  (str_int cid) cap (videos_by_class cid (videos st))
                  (count_downloaded cid (videos st)) (st\<lparr>tree := tr\<rparr>) of
             Raised e (cnt, st') \<Rightarrow> Raised e st'
           | Returned (cnt, st') \<Rightarrow>
               download_classes B output_root cap platform ext classes
                 (st'\<lparr>counts := counts st' @ [(cid, cls, cnt)],
                      tree := rmdir_class (str_int cid) (tree st')\<rparr>)))"

definition total_count :: "(int \<times> string \<times> int) list \<Rightarrow> int" where
  "total_count tracker = sum_list (map (\<lambda>(cid, cls, cnt). cnt) tracker)"

definition download_videos ::
  "'w backends \<Rightarrow> string \<Rightarrow> int option \<Rightarrow> string \<Rightarrow> string \<Rightarrow> 'w fetcher
   \<Rightarrow> 'w fetcher outcome" where
  "download_videos B output_root cap platform ext st =
     (case makedirs_root (tree st) of
        Inl e \<Rightarrow> Raised e st
      | Inr tr \<Rightarrow>
          (case download_classes B output_root cap platform ext
                  (drop_duplicates (map (\<lambda>r. (class_id r, class_name r)) (videos st)))
                  (st\<lparr>tree := tr, counts := []\<rparr>) of
             Raised e st' \<Rightarrow> Raised e st'
           | Returned st' \<Rightarrow>
               if total_count (counts st') > 0 then Returned st'
               else (case rmdir_root (tree st') of
                       Inl e \<Rightarrow> Raised e st'
                     | Inr tr' \<Rightarrow> Returned (st'\<lparr>tree := tr'\<rparr>))))"

subsection \<open>\<^verbatim>\<open>main\<close>\<close>

text \<open>
  \<^verbatim>\<open>videos['video_url'].apply(f)\<close> for the two functions that derive a file name; the
  first failing \<^verbatim>\<open>assert\<close> ends it.
\<close>

fun apply_names :: "(string \<Rightarrow> error + string) \<Rightarrow> video list \<Rightarrow> error + video list" where
  "apply_names f [] = Inr []"
| "apply_names f (r # rs) =
     (case f (video_url r) of
        Inl e \<Rightarrow> Inl e
      | Inr name \<Rightarrow>
          (case apply_names f rs of
             Inl e \<Rightarrow> Inl e
           | Inr rs' \<Rightarrow> Inr (r\<lparr>video_name := name\<rparr> # rs')))"

text \<open>
  The two loops over \<^verbatim>\<open>os.listdir\<close>. \<open>named\<close> says whether the frame has a column
  \<^verbatim>\<open>video_name\<close>; without one the comparison raises \<open>KeyError\<close>. Listing an entry of
  the root that is a file raises \<open>NotADirectoryError\<close>.
\<close>

fun mark_files :: "bool \<Rightarrow> string list \<Rightarrow> video list \<Rightarrow> error + video list" where
  "mark_files named [] vs = Inr vs"
| "mark_files named (video_file # files) vs =
     (if \<not> named then Inl KeyError
      else mark_files named files
             (map (\<lambda>r. if video_name r = split_dot_0 video_file then r\<lparr>download := True\<rparr> else r)
                  vs))"

fun mark_classes :: "bool \<Rightarrow> (string \<times> node) list \<Rightarrow> video list \<Rightarrow> error + video list" where
  "mark_classes named [] vs = Inr vs"
| "mark_classes named ((class_dir, File) # entries) vs = Inl NotADirectoryError"
| "mark_classes named ((class_dir, Dir files) # entries) vs =
     (case mark_files named files vs of
        Inl e \<Rightarrow> Inl e
      | Inr vs' \<Rightarrow> mark_classes named entries vs')"

text \<open>
  Lines 178 to 182 of \<^verbatim>\<open>main\<close>: the column \<^verbatim>\<open>download\<close> is set to \<^verbatim>\<open>False\<close>, then the
  output directory is listed.
\<close>

fun check_downloaded :: "bool \<Rightarrow> output_tree \<Rightarrow> video list \<Rightarrow> error + video list" where
  "check_downloaded named Missing vs = Inl FileNotFoundError"
| "check_downloaded named Plain_File vs = Inl NotADirectoryError"
| "check_downloaded named (Directory entries) vs =
     mark_classes named entries (map (\<lambda>r. r\<lparr>download := False\<rparr>) vs)"

text \<open>
  \<^verbatim>\<open>main\<close>. The field \<open>videos\<close> of its state is the CSV file: it is rewritten only when
  \<^verbatim>\<open>download_videos\<close> has returned. \<open>named\<close> says whether the file has a column
  \<^verbatim>\<open>video_name\<close>.
\<close>

definition main ::
  "'w backends \<Rightarrow> bool \<Rightarrow> string \<Rightarrow> int option \<Rightarrow> string \<Rightarrow> 'w fetcher \<Rightarrow> 'w fetcher outcome" where
  "main B named platform cap output_path st =
     (case (if named then Inr (videos st)
            else if platform = ''youtube'' then apply_names get_youtube_video_id (videos st)
            else if platform = ''bilibili'' then apply_names get_bilibili_video_id (videos st)
            else Inr (videos st)) of
        Inl e \<Rightarrow> Raised e st
      | Inr vs \<Rightarrow>
          (case check_downloaded (named \<or> platform = ''youtube'' \<or> platform = ''bilibili'')
                  (tree st) vs of
             Inl e \<Rightarrow> Raised e st
           | Inr marked \<Rightarrow>
               if platform = ''youtube'' \<or> platform = ''bilibili''
               then (case download_videos B output_path cap platform ''.mp4''
                            (st\<lparr>videos := marked\<rparr>) of
                       Raised e st' \<Rightarrow> Raised e (st'\<lparr>videos := videos st\<rparr>)
                     | Returned st' \<Rightarrow> Returned st')
               else Returned st))"

section \<open>Notions used in the statements\<close>

text \<open>
  The pairs that \<^verbatim>\<open>get_bilibili_urls\<close> takes from a list of elements when nothing stops
  it: the address is there, contains \<^verbatim>\<open>video\<close>, and the pair is not on the omit list.
\<close>

definition collectable :: "(string \<times> string) list \<Rightarrow> element list \<Rightarrow> (string \<times> string) list" where
  "collectable omit_videos elements =
     concat (map (\<lambda>e. case href e of
                         None \<Rightarrow> []
                       | Some url \<Rightarrow> if py_in ''video'' url \<and> (title e, url) \<notin> set omit_videos
                                     then [(title e, url)] else [])
                 elements)"

text \<open>A browser that shows the same elements for every address.\<close>

definition fixed_driver :: "element list \<Rightarrow> unit driver" where
  "fixed_driver elements w query = (elements, w)"

text \<open>The rows of a ledger file, none when the file is missing.\<close>

definition ledger_rows :: "url_row list option \<Rightarrow> url_row list" where
  "ledger_rows file = (case file of None \<Rightarrow> [] | Some rows \<Rightarrow> rows)"

text \<open>
  The rows of one class, and a ledger whose \<^verbatim>\<open>video_id\<close>s are dense and zero-based in
  every class: the numbers of a class with \<open>n\<close> rows are \<open>0, \<dots>, n - 1\<close>, each once.
\<close>

definition class_rows :: "int \<Rightarrow> url_row list \<Rightarrow> url_row list" where
  "class_rows c rows = filter (\<lambda>r. class_id r = c) rows"

definition dense :: "url_row list \<Rightarrow> bool" where
  "dense rows =
     (\<forall>c \<in> set (map class_id rows).
        sort (map video_id (class_rows c rows)) = map int [0..<length (class_rows c rows)])"

text \<open>
  \<open>new\<close> continues \<open>old\<close>: in every class the new rows are numbered, in their order,
  from the number of old rows of that class on. \<open>new\<close> is unseen in \<open>old\<close>: no new row
  has the title and address of an old row of its class.
\<close>

definition continues :: "url_row list \<Rightarrow> url_row list \<Rightarrow> bool" where
  "continues old new =
     (\<forall>c. map video_id (class_rows c new) =
           map (\<lambda>j. int (length (class_rows c old)) + int j) [0..<length (class_rows c new)])"

definition unseen :: "url_row list \<Rightarrow> url_row list \<Rightarrow> bool" where
  "unseen old new =
     (\<forall>r \<in> set new. (video_title r, video_url r) \<notin> set (omit_list (class_id r) old))"

text \<open>
  The targets of a run, one for each class, when \<^verbatim>\<open>num_videos\<close> is well formed; and a
  class that has fewer rows than its target, for which the loop goes on to a search.
\<close>

definition targets :: "num_videos \<Rightarrow> string list \<Rightarrow> int list option" where
  "targets num_videos classes =
     (case num_videos of
        NumInt k \<Rightarrow> Some (replicate (length classes) k)
      | NumList ns \<Rightarrow> if length ns = length classes then Some ns else None
      | NumOther \<Rightarrow> None)"

definition wanting :: "int list \<Rightarrow> url_row list \<Rightarrow> nat \<Rightarrow> bool" where
  "wanting nums rows cid = (int (length (class_rows (int cid) rows)) < nums ! cid)"

text \<open>A small ledger and a result page for the examples.\<close>

definition cat_ledger :: "url_row list" where
  "cat_ledger = [\<lparr>class_id = 0, class_name = ''cat'', video_id = 0,
                   video_title = ''a'', video_url = ''https://a''\<rparr>]"

definition cat_page :: "element list" where
  "cat_page = [\<lparr>href = Some ''https://a'', title = ''a''\<rparr>,
               \<lparr>href = None, title = ''c''\<rparr>,
               \<lparr>href = Some ''https://b'', title = ''b''\<rparr>]"

text \<open>
  The names \<^verbatim>\<open>main\<close> reads when it lists every entry of the output directory, and
  backends that always succeed, leaving the file asked for, or always fail, leaving
  nothing.
\<close>

definition listed_files :: "(string \<times> node) list \<Rightarrow> string list" where
  "listed_files entries =
     concat (map (\<lambda>(class_dir, nd). case nd of File \<Rightarrow> [] | Dir files \<Rightarrow> files) entries)"

definition steady_backend :: "bool \<Rightarrow> unit backend" where
  "steady_backend ok w url file output_dir = (ok, if ok then [file] else [], w)"

definition steady_backends :: "bool \<Rightarrow> unit backends" where
  "steady_backends ok =
     \<lparr>youtube_dl = steady_backend ok, pytube = steady_backend ok, you_get = steady_backend ok\<rparr>"

text \<open>A CSV file with one row, whose \<^verbatim>\<open>video_name\<close> is given.\<close>

definition one_video :: "string \<Rightarrow> bool \<Rightarrow> video" where
  "one_video name flag =
     \<lparr>class_id = 0, class_name = ''cat'', video_id = 0, video_title = ''a'',
        video_url = ''https://www.youtube.com/watch?v=a.b&t=1'', video_name = name,
        download = flag\<rparr>"

definition one_video_state :: "string \<Rightarrow> bool \<Rightarrow> output_tree \<Rightarrow> unit fetcher" where
  "one_video_state name flag tr =
     \<lparr>videos = [one_video name flag], counts = [], tree = tr, requests = [], network = ()\<rparr>"

text \<open>
  The rows the loop still has to visit agree with the frame: their indices are in range
  and pairwise different, they belong to the class, and their flag is the one of the copy.
\<close>

definition pending :: "int \<Rightarrow> (nat \<times> video) list \<Rightarrow> video list \<Rightarrow> bool" where
  "pending cid rows vs =
     (distinct (map fst rows)
      \<and> (\<forall>p \<in> set rows. fst p < length vs \<and> class_id (vs ! fst p) = cid
            \<and> vs ! fst p = snd p))"

text \<open>
  The test at the head of the loop over the rows, the call the loop makes for a row, and
  the file name it passes: \<^verbatim>\<open>video_name + ext\<close> for YouTube, \<^verbatim>\<open>video_name\<close> for Bilibili.
\<close>

definition capped :: "int option \<Rightarrow> int \<Rightarrow> bool" where
  "capped cap cnt = (case cap of None \<Rightarrow> False | Some k \<Rightarrow> k \<le> cnt)"

definition file_name :: "string \<Rightarrow> string \<Rightarrow> video \<Rightarrow> string" where
  "file_name platform ext row =
     (if platform = ''youtube'' then video_name row @ ext else video_name row)"

definition attempt ::
  "'w backends \<Rightarrow> string \<Rightarrow> string \<Rightarrow> string \<Rightarrow> 'w \<Rightarrow> video \<Rightarrow> bool \<times> string list \<times> 'w" where
  "attempt B platform ext output_dir w row =
     (if platform = ''youtube''
      then download_youtube_video B w (video_url row) (video_name row @ ext) output_dir
      else download_bilibili_video B w (video_url row) (video_name row) output_dir)"

definition supported :: "string \<Rightarrow> bool" where
  "supported platform = (platform = ''youtube'' \<or> platform = ''bilibili'')"

text \<open>The entry of a name in the output directory, and a frame with all flags erased.\<close>

definition class_dir :: "string \<Rightarrow> output_tree \<Rightarrow> node option" where
  "class_dir name tr = (case tr of Directory entries \<Rightarrow> map_of entries name | _ \<Rightarrow> None)"

definition unflagged :: "video list \<Rightarrow> video list" where
  "unflagged vs = map (\<lambda>r. r\<lparr>download := False\<rparr>) vs"

text \<open>A frame with one row of class 0 for every given flag.\<close>

definition flagged_state :: "bool list \<Rightarrow> output_tree \<Rightarrow> unit fetcher" where
  "flagged_state flags tr =
     \<lparr>videos = map (one_video ''v'') flags, counts = [], tree = tr, requests = [],
        network = ()\<rparr>"

text \<open>
  The output path is a directory; and the entry of a name is vacant: not there, or an
  empty directory.
\<close>

definition is_directory :: "output_tree \<Rightarrow> bool" where
  "is_directory tr = (case tr of Directory entries \<Rightarrow> True | _ \<Rightarrow> False)"

definition vacant :: "string \<Rightarrow> output_tree \<Rightarrow> bool" where
  "vacant name tr = (class_dir name tr = None \<or> class_dir name tr = Some (Dir []))"



text \<open>
  Backends that download one address only, and a frame with a row of class 0 at another
  address and a row of class 1 at that address.
\<close>

definition url_backend :: "string \<Rightarrow> unit backend" where
  "url_backend good w url file output_dir = (url = good, if url = good then [file] else [], w)"

definition url_backends :: "string \<Rightarrow> unit backends" where
  "url_backends good =
     \<lparr>youtube_dl = url_backend good, pytube = url_backend good, you_get = url_backend good\<rparr>"

definition two_class_state :: "output_tree \<Rightarrow> unit fetcher" where
  "two_class_state tr =
     \<lparr>videos = [\<lparr>class_id = 0, class_name = ''cat'', video_id = 0, video_title = ''a'',
                   video_url = ''https://bad'', video_name = ''v'', download = False\<rparr>,
                 \<lparr>class_id = 1, class_name = ''dog'', video_id = 0, video_title = ''b'',
                   video_url = ''https://good'', video_name = ''w'', download = False\<rparr>],
        counts = [], tree = tr, requests = [], network = ()\<rparr>"

section \<open>Properties of the file names\<close>

subsection \<open>Facts about \<open>find\<close>, slices and \<open>os.path.split\<close>\<close>

lemma find_from_cases:
  "find_from i s sub = - 1 \<or>
   (\<exists>j \<le> length s. find_from i s sub = int (i + j) \<and> prefix sub (drop j s))"
proof (induction s arbitrary: i)
  case Nil
  then show ?case by simp
next
  case (Cons c cs)
  show ?case
  proof (cases "prefix sub (c # cs)")
    case True
    then show ?thesis by auto
  next
    case False
    from Cons.IH [of "Suc i"] show ?thesis
    proof
      assume "find_from (Suc i) cs sub = - 1"
      with False show ?thesis by simp
    next
      assume "\<exists>j \<le> length cs. find_from (Suc i) cs sub = int (Suc i + j) \<and> prefix sub (drop j cs)"
      then obtain j where j: "j \<le> length cs" "find_from (Suc i) cs sub = int (Suc i + j)"
        "prefix sub (drop j cs)" by blast
      have "Suc j \<le> length (c # cs) \<and> find_from i (c # cs) sub = int (i + Suc j)
            \<and> prefix sub (drop (Suc j) (c # cs))"
        using j False by simp
      then show ?thesis by blast
    qed
  qed
qed

lemma find_from_found:
  "k \<le> length s \<Longrightarrow> prefix sub (drop k s) \<Longrightarrow>
   \<exists>j \<le> k. find_from i s sub = int (i + j)"
proof (induction s arbitrary: i k)
  case Nil
  then show ?case by simp
next
  case (Cons c cs)
  show ?case
  proof (cases "prefix sub (c # cs)")
    case True
    then show ?thesis by auto
  next
    case False
    with Cons.prems obtain k' where k': "k = Suc k'" by (cases k) auto
    with Cons.prems have "k' \<le> length cs" "prefix sub (drop k' cs)" by auto
    from Cons.IH [OF this, of "Suc i"] obtain j where "j \<le> k'"
      "find_from (Suc i) cs sub = int (Suc i + j)" by blast
    with False k' have "Suc j \<le> k \<and> find_from i (c # cs) sub = int (i + Suc j)" by simp
    then show ?thesis by blast
  qed
qed

lemma find_from_absent:
  "c \<notin> set s \<Longrightarrow> find_from i s [c] = - 1"
  by (induction s arbitrary: i) auto

lemma os_path_split_decomp:
  assumes "os_path_split p = (h, t)"
  shows "\<exists>z. p = h @ z @ t \<and> set z \<subseteq> {CHR ''/''}"
proof -
  define i where "i = length (dropWhile (\<lambda>c. c \<noteq> CHR ''/'') (rev p))"
  define a where "a = take i p"
  have t: "t = drop i p" using assms by (simp add: os_path_split_def i_def Let_def)
  have p: "p = a @ t" by (simp add: a_def t)
  have h: "h = a \<or> h = rev (dropWhile (\<lambda>c. c = CHR ''/'') (rev a))"
    using assms by (auto simp add: os_path_split_def i_def a_def Let_def split: if_splits)
  show ?thesis
  proof (cases "h = a")
    case True
    with p have "p = h @ [] @ t \<and> set [] \<subseteq> {CHR ''/''}" by simp
    then show ?thesis by blast
  next
    case False
    with h have h': "h = rev (dropWhile (\<lambda>c. c = CHR ''/'') (rev a))" by simp
    define z where "z = rev (takeWhile (\<lambda>c. c = CHR ''/'') (rev a))"
    have "rev a = takeWhile (\<lambda>c. c = CHR ''/'') (rev a) @ dropWhile (\<lambda>c. c = CHR ''/'') (rev a)"
      by simp
    then have "rev (rev a) = h @ z" unfolding h' z_def by (metis rev_append)
    then have "a = h @ z" by simp
    moreover have "set z \<subseteq> {CHR ''/''}" unfolding z_def by (auto dest: set_takeWhileD)
    ultimately have "p = h @ z @ t \<and> set z \<subseteq> {CHR ''/''}" using p by simp
    then show ?thesis by blast
  qed
qed

lemma prefix_v_eq:
  "prefix ''v='' xs \<longleftrightarrow> (\<exists>r. xs = CHR ''v'' # CHR ''='' # r)"
  by (auto simp add: prefix_def)

lemma py_index_nonneg: "0 \<le> a \<Longrightarrow> py_index s a = min (nat a) (length s)"
  by (auto simp add: py_index_def Let_def)

lemma slice_without_ampersand:
  assumes "1 \<le> ss" and "CHR ''&'' \<notin> set (drop (nat ss) t)"
  shows "py_slice t ss (ss + py_find (py_slice_from t ss) ''&'') = []"
proof -
  have "py_slice_from t ss = drop (nat ss) t"
    using assms(1) by (cases "nat ss \<le> length t") (simp_all add: py_slice_from_def py_index_nonneg min_def)
  then have "py_find (py_slice_from t ss) ''&'' = - 1"
    using assms(2) by (simp add: py_find_def find_from_absent)
  moreover have "py_slice t ss (ss - 1) = []"
    using assms(1) by (simp add: py_slice_def py_index_nonneg)
  ultimately show ?thesis by simp
qed

lemma tail_without_ampersand:
  assumes url: "url = a @ t @ z" and z: "set z \<subseteq> {CHR ''/''}"
    and found: "0 \<le> py_find url ''v=''"
    and amp: "CHR ''&'' \<notin> set (drop (nat (py_find url ''v='') + 2) url)"
  shows "CHR ''&'' \<notin> set (drop (nat (py_find t ''v='' + 2)) t)"
proof -
  define P where "P = nat (py_find url ''v='')"
  from find_from_cases [of 0 url "''v=''"] found
  have Pfound: "P \<le> length url" "prefix ''v='' (drop P url)"
    by (auto simp add: py_find_def P_def)
  have minimal: "P \<le> k" if "k \<le> length url" "prefix ''v='' (drop k url)" for k
    using find_from_found [OF that, of 0] by (auto simp add: py_find_def P_def)
  have sub: "set (drop (length a + n) url) \<subseteq> set (drop (P + 2) url)" if "P + 2 \<le> length a + n" for n
    using that by (rule set_drop_subset_set_drop)
  have tsub: "set (drop n t) \<subseteq> set (drop (length a + n) url)" for n
    by (auto simp add: url)
  from find_from_cases [of 0 t "''v=''"] show ?thesis
  proof
    assume none: "find_from 0 t ''v='' = - 1"
    have "P < length a"
    proof (rule ccontr)
      assume "\<not> P < length a"
      then obtain m where m: "P = length a + m" by (metis le_add_diff_inverse not_less)
      from Pfound(2) have pre: "prefix ''v='' (drop m t @ drop (m - length t) z)"
        by (simp add: url m)
      show False
      proof (cases "m + 2 \<le> length t")
        case True
        then have "2 \<le> length (drop m t)" by simp
        then obtain c d r where "drop m t = c # d # r"
          by (cases "drop m t"; cases "tl (drop m t)") auto
        with pre have "prefix ''v='' (drop m t)" by (simp add: prefix_v_eq)
        moreover have "\<not> prefix ''v='' (drop m t)"
        proof
          assume "prefix ''v='' (drop m t)"
          from find_from_found [OF _ this, of 0] True none show False by auto
        qed
        ultimately show False by simp
      next
        case False
        from pre obtain r where r: "drop m t @ drop (m - length t) z = CHR ''v'' # CHR ''='' # r"
          by (auto simp add: prefix_v_eq)
        have "length (drop m t) \<le> 1" using False by simp
        then have "CHR ''='' \<in> set (drop (m - length t) z)"
          using r by (cases "drop m t") (auto simp add: Cons_eq_append_conv)
        then have "CHR ''='' \<in> set z" by (rule in_set_dropD)
        with z show False by auto
      qed
    qed
    then have "P + 2 \<le> length a + 1" by simp
    from sub [OF this] tsub [of 1] amp have "CHR ''&'' \<notin> set (drop 1 t)"
      by (auto simp add: P_def)
    with none show ?thesis by (simp add: py_find_def)
  next
    assume "\<exists>j \<le> length t. find_from 0 t ''v='' = int (0 + j) \<and> prefix ''v='' (drop j t)"
    then obtain j where j: "j \<le> length t" "find_from 0 t ''v='' = int j" "prefix ''v='' (drop j t)"
      by auto
    have "prefix ''v='' (drop (length a + j) url)"
      using j(1,3) by (auto simp add: url prefix_v_eq)
    moreover have "length a + j \<le> length url" using j(1) by (simp add: url)
    ultimately have "P \<le> length a + j" using minimal by blast
    then have "P + 2 \<le> length a + (j + 2)" by simp
    from sub [OF this] tsub [of "j + 2"] amp have "CHR ''&'' \<notin> set (drop (j + 2) t)"
      by (auto simp add: P_def)
    moreover have "nat (py_find t ''v='' + 2) = j + 2" using j(2) by (simp add: py_find_def)
    ultimately show ?thesis by simp
  qed
qed

lemma video_id_component:
  assumes "os_path_split url = (h1, t1)"
    and "(h, t) = (if length t1 = 0 then os_path_split h1 else (h1, t1))"
  shows "\<exists>a z. url = a @ t @ z \<and> set z \<subseteq> {CHR ''/''}"
proof (cases "length t1 = 0")
  case True
  from os_path_split_decomp [OF assms(1)] obtain z1 where z1: "url = h1 @ z1 @ t1" "set z1 \<subseteq> {CHR ''/''}"
    by blast
  from assms(2) True have "os_path_split h1 = (h, t)" by simp
  from os_path_split_decomp [OF this] obtain z2 where z2: "h1 = h @ z2 @ t" by blast
  have "url = (h @ z2) @ t @ z1 \<and> set z1 \<subseteq> {CHR ''/''}" using z1 z2 True by simp
  then show ?thesis by blast
next
  case False
  from os_path_split_decomp [OF assms(1)] obtain z1 where z1: "url = h1 @ z1 @ t1" by blast
  have "url = (h1 @ z1) @ t @ [] \<and> set [] \<subseteq> {CHR ''/''}" using z1 assms(2) False by simp
  then show ?thesis by blast
qed

text \<open>
  Claim C10. A YouTube address that contains \<^verbatim>\<open>v=\<close> and has no \<^verbatim>\<open>&\<close> after the first
  \<^verbatim>\<open>v=\<close> gets the empty string from \<^verbatim>\<open>_get_youtube_video_id\<close>: \<^verbatim>\<open>find('&')\<close> is
  \<open>-1\<close> there, so the slice ends one place before it starts. The empty string is then the
  \<^verbatim>\<open>video_name\<close> of the row. The witness is \<^verbatim>\<open>https://www.youtube.com/watch?v=abc123\<close>.
\<close>

theorem youtube_video_id_without_ampersand:
  assumes "py_in ''youtube'' url"
    and "0 \<le> py_find url ''v=''"
    and "CHR ''&'' \<notin> set (drop (nat (py_find url ''v='') + 2) url)"
  shows "get_youtube_video_id url = Inr []"
proof -
  obtain h1 t1 where s1: "os_path_split url = (h1, t1)" by (cases "os_path_split url")
  obtain h t where s2: "(h, t) = (if length t1 = 0 then os_path_split h1 else (h1, t1))"
    by (cases "if length t1 = 0 then os_path_split h1 else (h1, t1)") auto
  from video_id_component [OF s1 s2] obtain a z where az: "url = a @ t @ z" "set z \<subseteq> {CHR ''/''}"
    by blast
  define ss where "ss = py_find t ''v='' + 2"
  have "1 \<le> ss" using find_from_cases [of 0 t "''v=''"] by (auto simp add: ss_def py_find_def)
  moreover have "CHR ''&'' \<notin> set (drop (nat ss) t)"
    unfolding ss_def using tail_without_ampersand [OF az assms(2,3)] .
  ultimately have "py_slice t ss (ss + py_find (py_slice_from t ss) ''&'') = []"
    by (rule slice_without_ampersand)
  moreover have "get_youtube_video_id url = Inr (py_slice t ss (ss + py_find (py_slice_from t ss) ''&''))"
    using assms(1) s1 s2 [symmetric] by (simp add: get_youtube_video_id_def ss_def Let_def)
  ultimately show ?thesis by simp
qed

theorem youtube_video_id_without_ampersand_witness:
  "py_in ''youtube'' ''https://www.youtube.com/watch?v=abc123''
   \<and> 0 \<le> py_find ''https://www.youtube.com/watch?v=abc123'' ''v=''
   \<and> CHR ''&'' \<notin> set (drop (nat (py_find ''https://www.youtube.com/watch?v=abc123'' ''v='') + 2)
        ''https://www.youtube.com/watch?v=abc123'')
   \<and> get_youtube_video_id ''https://www.youtube.com/watch?v=abc123'' = Inr []"
proof -
  have f: "py_find ''https://www.youtube.com/watch?v=abc123'' ''v='' = 30"
    by (simp add: py_find_def)
  have h1: "py_in ''youtube'' ''https://www.youtube.com/watch?v=abc123''"
    by (simp add: py_in_def py_find_def)
  have h2: "0 \<le> py_find ''https://www.youtube.com/watch?v=abc123'' ''v=''"
    by (simp add: f)
  have h3: "CHR ''&'' \<notin> set (drop (nat (py_find ''https://www.youtube.com/watch?v=abc123'' ''v='') + 2)
        ''https://www.youtube.com/watch?v=abc123'')"
    by (simp add: f)
  from youtube_video_id_without_ampersand [OF h1 h2 h3] h1 h2 h3 show ?thesis by blast
qed

section \<open>Properties of the Collector\<close>

subsection \<open>The two scans\<close>

lemma collectable_append:
  "collectable omit_videos (xs @ ys) = collectable omit_videos xs @ collectable omit_videos ys"
  by (simp add: collectable_def)

lemma collectable_Cons_Some:
  "href e = Some url \<Longrightarrow>
   collectable omit_videos (e # es) =
     (if py_in ''video'' url \<and> (title e, url) \<notin> set omit_videos then [(title e, url)] else [])
     @ collectable omit_videos es"
  by (simp add: collectable_def)

lemma bilibili_scan_passes:
  assumes "\<forall>e \<in> set pre. href e \<noteq> None"
    and "cnt + int (length (collectable omit_videos pre)) < n"
  shows "bilibili_scan n omit_videos (pre @ rest) acc cnt =
         bilibili_scan n omit_videos rest (acc @ collectable omit_videos pre)
           (cnt + int (length (collectable omit_videos pre)))"
  using assms
proof (induction pre arbitrary: acc cnt)
  case Nil
  then show ?case by (simp add: collectable_def)
next
  case (Cons e pre)
  then obtain url where url: "href e = Some url" by auto
  show ?case
  proof (cases "py_in ''video'' url \<and> (title e, url) \<notin> set omit_videos")
    case True
    then have c: "collectable omit_videos (e # pre) = (title e, url) # collectable omit_videos pre"
      using url by (simp add: collectable_Cons_Some)
    have "cnt + 1 + int (length (collectable omit_videos pre)) < n"
      using Cons.prems(2) c by simp
    moreover have "\<forall>e \<in> set pre. href e \<noteq> None" using Cons.prems(1) by simp
    ultimately have "bilibili_scan n omit_videos (pre @ rest) (acc @ [(title e, url)]) (cnt + 1) =
         bilibili_scan n omit_videos rest ((acc @ [(title e, url)]) @ collectable omit_videos pre)
           (cnt + 1 + int (length (collectable omit_videos pre)))"
      by (rule Cons.IH [rotated])
    moreover have "\<not> n \<le> cnt + 1" using Cons.prems(2) c by simp
    ultimately show ?thesis using url True c by (simp add: add.assoc)
  next
    case False
    then have c: "collectable omit_videos (e # pre) = collectable omit_videos pre"
      using url by (simp add: collectable_Cons_Some)
    have "bilibili_scan n omit_videos (pre @ rest) acc cnt =
         bilibili_scan n omit_videos rest (acc @ collectable omit_videos pre)
           (cnt + int (length (collectable omit_videos pre)))"
      using Cons.prems c by (intro Cons.IH) simp_all
    then show ?thesis using url False c by auto
  qed
qed

lemma youtube_scan_skips:
  "href e = None \<Longrightarrow>
   youtube_scan n omit_videos (pre @ e # post) acc cnt =
   youtube_scan n omit_videos (pre @ post) acc cnt"
  by (induction pre arbitrary: acc cnt) (auto split: option.splits)

text \<open>
  Claim C9, as amended. \<^verbatim>\<open>get_bilibili_urls\<close> raises \<open>TypeError\<close> when its loop reaches
  an element without address: when the elements before the first such element give fewer
  than \<open>n\<close> pairs to collect. \<^verbatim>\<open>get_youtube_urls\<close> scans the same list as if the
  element were not there.
\<close>

theorem bilibili_raises_at_reached_element:
  assumes "driver w (''https://search.bilibili.com/all?keyword='' @ replace_space ''%20'' kw)
           = (pre @ e # post, w')"
    and "\<forall>x \<in> set pre. href x \<noteq> None"
    and "href e = None"
    and "int (length (collectable omit_videos pre)) < n"
  shows "fst (get_bilibili_urls driver w kw n omit_videos) = Inl TypeError
       \<and> youtube_scan n omit_videos (pre @ e # post) [] 0
           = youtube_scan n omit_videos (pre @ post) [] 0"
proof -
  have "bilibili_scan n omit_videos (pre @ e # post) [] 0 =
        bilibili_scan n omit_videos (e # post) ([] @ collectable omit_videos pre)
          (0 + int (length (collectable omit_videos pre)))"
    using assms(2,4) by (intro bilibili_scan_passes) simp_all
  then have "bilibili_scan n omit_videos (pre @ e # post) [] 0 = Inl TypeError"
    using assms(3) by simp
  then have "fst (get_bilibili_urls driver w kw n omit_videos) = Inl TypeError"
    using assms(1) by (simp add: get_bilibili_urls_def)
  moreover note youtube_scan_skips [OF assms(3)]
  ultimately show ?thesis by simp
qed

text \<open>
  Claim C9 as stated fails: with \<open>n = 1\<close> the loop breaks after the first pair, the
  element without address behind it is never read, and the function returns.
\<close>

theorem bilibili_returns_before_absent_url:
  "href \<lparr>href = None, title = ''b''\<rparr> = None
   \<and> get_bilibili_urls
       (fixed_driver [\<lparr>href = Some ''https://www.bilibili.com/video/BV1'', title = ''a''\<rparr>,
                      \<lparr>href = None, title = ''b''\<rparr>]) () ''cat'' 1 []
     = (Inr [(''a'', ''https://www.bilibili.com/video/BV1'')],
        ''https://search.bilibili.com/all?keyword=cat'', ())"
  by (simp add: get_bilibili_urls_def fixed_driver_def replace_space_def py_in_def py_find_def)

theorem bilibili_raises_at_reached_element_witness:
  "fst (get_bilibili_urls
       (fixed_driver [\<lparr>href = Some ''https://www.bilibili.com/video/BV1'', title = ''a''\<rparr>,
                      \<lparr>href = None, title = ''b''\<rparr>,
                      \<lparr>href = Some ''https://www.bilibili.com/video/BV2'', title = ''c''\<rparr>])
       () ''cat'' 2 []) = Inl TypeError
   \<and> youtube_scan 2 []
       ([\<lparr>href = Some ''https://www.bilibili.com/video/BV1'', title = ''a''\<rparr>]
         @ \<lparr>href = None, title = ''b''\<rparr>
         # [\<lparr>href = Some ''https://www.bilibili.com/video/BV2'', title = ''c''\<rparr>]) [] 0
     = youtube_scan 2 []
       ([\<lparr>href = Some ''https://www.bilibili.com/video/BV1'', title = ''a''\<rparr>]
         @ [\<lparr>href = Some ''https://www.bilibili.com/video/BV2'', title = ''c''\<rparr>]) [] 0"
proof -
  have h1: "fixed_driver [\<lparr>href = Some ''https://www.bilibili.com/video/BV1'', title = ''a''\<rparr>,
                      \<lparr>href = None, title = ''b''\<rparr>,
                      \<lparr>href = Some ''https://www.bilibili.com/video/BV2'', title = ''c''\<rparr>] ()
          (''https://search.bilibili.com/all?keyword='' @ replace_space ''%20'' ''cat'')
        = ([\<lparr>href = Some ''https://www.bilibili.com/video/BV1'', title = ''a''\<rparr>]
            @ \<lparr>href = None, title = ''b''\<rparr>
            # [\<lparr>href = Some ''https://www.bilibili.com/video/BV2'', title = ''c''\<rparr>], ())"
    by (simp add: fixed_driver_def)
  have h2: "\<forall>x \<in> set [\<lparr>href = Some ''https://www.bilibili.com/video/BV1'', title = ''a''\<rparr>]. href x \<noteq> None"
    by simp
  have h3: "href \<lparr>href = None, title = ''b''\<rparr> = None" by simp
  have h4: "int (length (collectable [] [\<lparr>href = Some ''https://www.bilibili.com/video/BV1'', title = ''a''\<rparr>])) < 2"
    by (simp add: collectable_def)
  from bilibili_raises_at_reached_element
         [where driver = "fixed_driver [\<lparr>href = Some ''https://www.bilibili.com/video/BV1'', title = ''a''\<rparr>,
                      \<lparr>href = None, title = ''b''\<rparr>,
                      \<lparr>href = Some ''https://www.bilibili.com/video/BV2'', title = ''c''\<rparr>]"
            and w = "()" and w' = "()" and kw = "''cat''" and n = 2 and omit_videos = "[]"
            and pre = "[\<lparr>href = Some ''https://www.bilibili.com/video/BV1'', title = ''a''\<rparr>]"
            and e = "\<lparr>href = None, title = ''b''\<rparr>"
            and post = "[\<lparr>href = Some ''https://www.bilibili.com/video/BV2'', title = ''c''\<rparr>]",
          OF h1 h2 h3 h4]
  show ?thesis .
qed

subsection \<open>Rows appended for one class\<close>

lemma upto_as_map: "[k..k + int m - 1] = map (\<lambda>j. k + int j) [0..<m]"
proof (induction m)
  case 0
  then show ?case by simp
next
  case (Suc m)
  have "[k..k + int (Suc m) - 1] = [k..k + int m - 1] @ [k + int m]"
    using upto_rec2 [of k "k + int m"] by simp
  then show ?case using Suc by simp
qed

lemma new_rows_eq:
  "new_rows cid cls k found =
     map (\<lambda>((t, u), j). \<lparr>class_id = cid, class_name = cls, video_id = k + int j,
                          video_title = t, video_url = u\<rparr>)
         (zip found [0..<length found])"
proof -
  have "zip found (map (\<lambda>j. k + int j) [0..<length found])
        = map (\<lambda>(p, j). (p, k + int j)) (zip found [0..<length found])"
    by (simp add: zip_map2)
  then show ?thesis
    by (simp add: new_rows_def upto_as_map split_def)
qed

lemma length_new_rows [simp]: "length (new_rows cid cls k found) = length found"
  by (simp add: new_rows_eq)

lemma class_id_new_rows: "r \<in> set (new_rows cid cls k found) \<Longrightarrow> class_id r = cid"
  by (auto simp add: new_rows_eq)

lemma pairs_new_rows:
  "map (\<lambda>r. (video_title r, video_url r)) (new_rows cid cls k found) = found"
  by (rule nth_equalityI) (simp_all add: new_rows_eq split_def)

lemma video_id_new_rows:
  "map video_id (new_rows cid cls k found) = map (\<lambda>j. k + int j) [0..<length found]"
  by (rule nth_equalityI) (simp_all add: new_rows_eq split_def)

lemma class_rows_new_rows:
  "class_rows c (new_rows cid cls k found) = (if c = cid then new_rows cid cls k found else [])"
  by (auto simp add: class_rows_def filter_empty_conv dest: class_id_new_rows
           intro!: filter_True)

lemma class_rows_append [simp]:
  "class_rows c (xs @ ys) = class_rows c xs @ class_rows c ys"
  by (simp add: class_rows_def)

lemma omit_list_length: "length (omit_list c rows) = length (class_rows c rows)"
  by (simp add: omit_list_def class_rows_def)

lemma omit_list_append: "omit_list c (xs @ ys) = omit_list c xs @ omit_list c ys"
  by (simp add: omit_list_def)

subsection \<open>What the scans collect\<close>

lemma youtube_scan_unseen:
  "set (youtube_scan n omit_videos elements acc cnt) \<subseteq> set acc \<union> - set omit_videos"
proof (induction elements arbitrary: acc cnt)
  case Nil
  then show ?case by auto
next
  case (Cons e elements)
  show ?case
  proof (cases "href e")
    case None
    with Cons.IH [of acc cnt] show ?thesis by simp
  next
    case (Some url)
    show ?thesis
    proof (cases "(title e, url) \<notin> set omit_videos")
      case False
      with Cons.IH [of acc cnt] Some show ?thesis by simp
    next
      case True
      with Cons.IH [of "acc @ [(title e, url)]" "cnt + 1"] Some show ?thesis by auto
    qed
  qed
qed

lemma bilibili_scan_unseen:
  "bilibili_scan n omit_videos elements acc cnt = Inr found \<Longrightarrow>
   set found \<subseteq> set acc \<union> - set omit_videos"
proof (induction elements arbitrary: acc cnt)
  case Nil
  then show ?case by auto
next
  case (Cons e elements)
  show ?case
  proof (cases "href e")
    case None
    with Cons.prems show ?thesis by simp
  next
    case (Some url)
    show ?thesis
    proof (cases "py_in ''video'' url \<and> (title e, url) \<notin> set omit_videos")
      case False
      with Cons.prems Some have "bilibili_scan n omit_videos elements acc cnt = Inr found"
        by (auto split: if_splits)
      then show ?thesis by (rule Cons.IH)
    next
      case True
      show ?thesis
      proof (cases "n \<le> cnt + 1")
        case True
        with Cons.prems Some \<open>py_in ''video'' url \<and> (title e, url) \<notin> set omit_videos\<close>
        show ?thesis by auto
      next
        case False
        with Cons.prems Some True
        have "bilibili_scan n omit_videos elements (acc @ [(title e, url)]) (cnt + 1) = Inr found"
          by simp
        from Cons.IH [OF this] True show ?thesis by auto
      qed
    qed
  qed
qed

lemma get_youtube_urls_unseen:
  "get_youtube_urls driver w kw n omit_videos = (found, q, w') \<Longrightarrow> p \<in> set found \<Longrightarrow>
   p \<notin> set omit_videos"
  using youtube_scan_unseen [of n omit_videos _ "[]" 0]
  by (auto simp add: get_youtube_urls_def Let_def split: prod.splits)

lemma get_bilibili_urls_unseen:
  assumes "get_bilibili_urls driver w kw n omit_videos = (Inr found, q, w')"
    and "p \<in> set found"
  shows "p \<notin> set omit_videos"
proof -
  from assms(1) obtain elements where "bilibili_scan n omit_videos elements [] 0 = Inr found"
    by (auto simp add: get_bilibili_urls_def Let_def split: prod.splits)
  from bilibili_scan_unseen [OF this] assms(2) show ?thesis by auto
qed

subsection \<open>One class, then all classes\<close>

lemma continues_new_rows:
  "continues old (new_rows c cls (int (length (class_rows c old))) found)"
  by (simp add: continues_def class_rows_new_rows video_id_new_rows)

lemma unseen_new_rows:
  "\<forall>p \<in> set found. p \<notin> set (omit_list c old) \<Longrightarrow> unseen old (new_rows c cls k found)"
proof -
  assume a: "\<forall>p \<in> set found. p \<notin> set (omit_list c old)"
  have "(video_title r, video_url r) \<in> set found" if "r \<in> set (new_rows c cls k found)" for r
  proof -
    from that have "(video_title r, video_url r)
                    \<in> set (map (\<lambda>r. (video_title r, video_url r)) (new_rows c cls k found))"
      by (simp del: pairs_new_rows)
    then show ?thesis by (simp add: pairs_new_rows)
  qed
  with a show ?thesis by (auto simp add: unseen_def dest: class_id_new_rows)
qed

lemma continues_Nil [simp]: "continues old []"
  by (simp add: continues_def class_rows_def)

lemma unseen_Nil [simp]: "unseen old []"
  by (simp add: unseen_def)

lemma search_class_returned:
  assumes "search_class driver kw platform nums cid cls st = Returned st'"
  shows "\<exists>new. urls st' = urls st @ new \<and> (\<forall>r \<in> set new. class_id r = int cid)
         \<and> continues (urls st) new \<and> unseen (urls st) new
         \<and> ledger_file st' = ledger_file st"
proof (cases "nums ! cid \<le> int (length (omit_list (int cid) (urls st)))")
  case True
  with assms have "urls st' = urls st @ [] \<and> ledger_file st' = ledger_file st"
    by (auto simp add: search_class_def Let_def)
  then show ?thesis by (intro exI [of _ "[]"]) simp
next
  case False
  define k where "k = int (length (omit_list (int cid) (urls st)))"
  have k: "k = int (length (class_rows (int cid) (urls st)))"
    by (simp add: k_def omit_list_length)
  have "\<exists>found. urls st' = urls st @ new_rows (int cid) cls k found
          \<and> ledger_file st' = ledger_file st
          \<and> (\<forall>p \<in> set found. p \<notin> set (omit_list (int cid) (urls st)))"
  proof (cases "py_lower platform = ''youtube''")
    case True
    obtain found q w where g: "get_youtube_urls driver (browser st) (cls @ '' '' @ kw)
        (nums ! cid - k) (omit_list (int cid) (urls st)) = (found, q, w)"
      by (cases "get_youtube_urls driver (browser st) (cls @ '' '' @ kw)
        (nums ! cid - k) (omit_list (int cid) (urls st))") auto
    from assms False True g have "urls st' = urls st @ new_rows (int cid) cls k found
          \<and> ledger_file st' = ledger_file st"
      by (auto simp add: search_class_def Let_def k_def)
    with get_youtube_urls_unseen [OF g] show ?thesis by blast
  next
    case notyt: False
    show ?thesis
    proof (cases "py_lower platform = ''bilibili''")
      case True
      obtain res q w where g: "get_bilibili_urls driver (browser st) (cls @ '' '' @ kw)
          (nums ! cid - k) (omit_list (int cid) (urls st)) = (res, q, w)"
        by (cases "get_bilibili_urls driver (browser st) (cls @ '' '' @ kw)
          (nums ! cid - k) (omit_list (int cid) (urls st))") auto
      from assms False True notyt g obtain found where res: "res = Inr found"
        by (cases res) (auto simp add: search_class_def Let_def k_def)
      from assms False True notyt g res have "urls st' = urls st @ new_rows (int cid) cls k found
            \<and> ledger_file st' = ledger_file st"
        by (auto simp add: search_class_def Let_def k_def)
      with get_bilibili_urls_unseen [OF g [unfolded res]] show ?thesis by blast
    next
      case False
      with assms notyt \<open>\<not> nums ! cid \<le> int (length (omit_list (int cid) (urls st)))\<close>
      show ?thesis by (auto simp add: search_class_def Let_def)
    qed
  qed
  then obtain found where
    st': "urls st' = urls st @ new_rows (int cid) cls k found"
         "ledger_file st' = ledger_file st"
    and found: "\<forall>p \<in> set found. p \<notin> set (omit_list (int cid) (urls st))"
    by blast
  have "continues (urls st) (new_rows (int cid) cls k found)"
    unfolding k by (rule continues_new_rows)
  moreover have "unseen (urls st) (new_rows (int cid) cls k found)"
    using found by (rule unseen_new_rows)
  moreover have "\<forall>r \<in> set (new_rows (int cid) cls k found). class_id r = int cid"
    by (auto dest: class_id_new_rows)
  ultimately show ?thesis using st' by blast
qed

lemma search_class_raised:
  assumes "search_class driver kw platform nums cid cls st = Raised e st'"
  shows "urls st' = urls st \<and> ledger_file st' = ledger_file st"
  using assms
  by (auto simp add: search_class_def Let_def split: if_splits prod.splits sum.splits)

subsection \<open>The loop over the classes\<close>

lemma continues_append:
  assumes "continues old new1" and "continues (old @ new1) new2"
    and "\<forall>c. class_rows c new1 = [] \<or> class_rows c new2 = []"
  shows "continues old (new1 @ new2)"
  unfolding continues_def
proof
  fix c
  from assms(3) have "class_rows c new1 = [] \<or> class_rows c new2 = []" by blast
  then show "map video_id (class_rows c (new1 @ new2)) =
             map (\<lambda>j. int (length (class_rows c old)) + int j)
                 [0..<length (class_rows c (new1 @ new2))]"
  proof
    assume e: "class_rows c new1 = []"
    from assms(2) have "map video_id (class_rows c new2) =
        map (\<lambda>j. int (length (class_rows c (old @ new1))) + int j) [0..<length (class_rows c new2)]"
      by (simp only: continues_def)
    with e show ?thesis by simp
  next
    assume e: "class_rows c new2 = []"
    from assms(1) have "map video_id (class_rows c new1) =
        map (\<lambda>j. int (length (class_rows c old)) + int j) [0..<length (class_rows c new1)]"
      by (simp only: continues_def)
    with e show ?thesis by simp
  qed
qed

lemma unseen_append:
  assumes "unseen old new1" and "unseen (old @ new1) new2"
  shows "unseen old (new1 @ new2)"
  using assms by (auto simp add: unseen_def omit_list_append)

lemma class_rows_empty_iff: "class_rows c rows = [] \<longleftrightarrow> c \<notin> class_id ` set rows"
  by (auto simp add: class_rows_def filter_empty_conv)

lemma search_classes_appends:
  assumes "distinct (map fst cs)"
  shows "\<exists>new. urls (final (search_classes driver kw platform nums cs st)) = urls st @ new
          \<and> (\<forall>r \<in> set new. class_id r \<in> int ` fst ` set cs)
          \<and> continues (urls st) new \<and> unseen (urls st) new
          \<and> ledger_file (final (search_classes driver kw platform nums cs st)) = ledger_file st"
  using assms
proof (induction cs arbitrary: st)
  case Nil
  show ?case by (intro exI [of _ "[]"]) simp
next
  case (Cons a cs)
  obtain cid cls where a: "a = (cid, cls)" by (cases a)
  show ?case
  proof (cases "search_class driver kw platform nums cid cls st")
    case (Raised e st')
    from search_class_raised [OF this] Raised a show ?thesis
      by (intro exI [of _ "[]"]) simp
  next
    case (Returned st1)
    from search_class_returned [OF this] obtain new1 where
      n1: "urls st1 = urls st @ new1" "\<forall>r \<in> set new1. class_id r = int cid"
          "continues (urls st) new1" "unseen (urls st) new1" "ledger_file st1 = ledger_file st"
      by blast
    from Cons.prems have d: "distinct (map fst cs)" and notin: "cid \<notin> fst ` set cs"
      by (auto simp add: a)
    from Cons.IH [OF d, of st1] obtain new2 where
      n2: "urls (final (search_classes driver kw platform nums cs st1)) = urls st1 @ new2"
          "\<forall>r \<in> set new2. class_id r \<in> int ` fst ` set cs"
          "continues (urls st1) new2" "unseen (urls st1) new2"
          "ledger_file (final (search_classes driver kw platform nums cs st1)) = ledger_file st1"
      by blast
    have run: "search_classes driver kw platform nums (a # cs) st
               = search_classes driver kw platform nums cs st1"
      using Returned a by simp
    have disj: "\<forall>c. class_rows c new1 = [] \<or> class_rows c new2 = []"
    proof
      fix c
      show "class_rows c new1 = [] \<or> class_rows c new2 = []"
      proof (cases "c = int cid")
        case True
        have "int cid \<notin> class_id ` set new2"
        proof
          assume "int cid \<in> class_id ` set new2"
          with n2(2) have "int cid \<in> int ` fst ` set cs" by auto
          then have "cid \<in> fst ` set cs" by (simp add: inj_image_mem_iff)
          with notin show False by simp
        qed
        with True show ?thesis by (simp add: class_rows_empty_iff)
      next
        case False
        with n1(2) have "c \<notin> class_id ` set new1" by auto
        then show ?thesis by (simp add: class_rows_empty_iff)
      qed
    qed
    have "urls (final (search_classes driver kw platform nums (a # cs) st)) = urls st @ (new1 @ new2)"
      using run n1(1) n2(1) by simp
    moreover have "\<forall>r \<in> set (new1 @ new2). class_id r \<in> int ` fst ` set (a # cs)"
      using n1(2) n2(2) a by auto
    moreover have "continues (urls st) (new1 @ new2)"
      using n1(3) n2(3) disj unfolding n1(1) by (rule continues_append)
    moreover have "unseen (urls st) (new1 @ new2)"
      using n1(4) n2(4) unfolding n1(1) by (rule unseen_append)
    moreover have "ledger_file (final (search_classes driver kw platform nums (a # cs) st))
                   = ledger_file st"
      using run n1(5) n2(5) by simp
    ultimately show ?thesis by blast
  qed
qed

lemma enumerate_indices_distinct: "distinct (map fst (enumerate 0 classes))"
  by simp

lemma get_urls_ledger:
  "\<exists>rows new. ledger_file (final (get_urls driver classes num_videos kw platform file w)) = Some rows
     \<and> mset rows = mset (ledger_rows file) + mset new
     \<and> continues (ledger_rows file) new \<and> unseen (ledger_rows file) new"
proof -
  define st where "st = (case file of
                  Some rows \<Rightarrow> \<lparr>ledger_file = Some rows, urls = rows, count_tracker = [],
                                queries = [], browser = w\<rparr>
                | None \<Rightarrow> \<lparr>ledger_file = Some [], urls = [], count_tracker = [],
                           queries = [], browser = w\<rparr>)"
  have st: "ledger_file st = Some (ledger_rows file)" "urls st = ledger_rows file"
    by (simp_all add: st_def ledger_rows_def split: option.splits)
  have loop: "\<exists>rows new. ledger_file (final
        (case search_classes driver kw platform nums (enumerate 0 classes) st of
           Raised e st' \<Rightarrow> Raised e st'
         | Returned st' \<Rightarrow> Returned (st'\<lparr>ledger_file := Some (sort_values (urls st')),
                                         urls := sort_values (urls st')\<rparr>))) = Some rows
     \<and> mset rows = mset (ledger_rows file) + mset new
     \<and> continues (ledger_rows file) new \<and> unseen (ledger_rows file) new" for nums
  proof -
    from search_classes_appends [OF enumerate_indices_distinct, of driver kw platform nums classes st]
    obtain new where new:
      "urls (final (search_classes driver kw platform nums (enumerate 0 classes) st))
         = urls st @ new"
      "continues (urls st) new" "unseen (urls st) new"
      "ledger_file (final (search_classes driver kw platform nums (enumerate 0 classes) st))
         = ledger_file st"
      by blast
    show ?thesis
    proof (cases "search_classes driver kw platform nums (enumerate 0 classes) st")
      case (Raised e st')
      with new(4) st show ?thesis by (intro exI [of _ "ledger_rows file"] exI [of _ "[]"]) simp
    next
      case (Returned st')
      with new st show ?thesis
        by (intro exI [of _ "sort_values (ledger_rows file @ new)"] exI [of _ new])
           (simp add: sort_values_def)
    qed
  qed
  have stop: "\<exists>rows new. ledger_file st = Some rows
     \<and> mset rows = mset (ledger_rows file) + mset new
     \<and> continues (ledger_rows file) new \<and> unseen (ledger_rows file) new"
    using st by (intro exI [of _ "ledger_rows file"] exI [of _ "[]"]) simp
  show ?thesis
  proof (cases num_videos)
    case (NumInt k)
    with loop [of "replicate (length classes) k"] show ?thesis
      by (simp add: get_urls_def st_def [symmetric])
  next
    case (NumList ns)
    with loop [of ns] stop show ?thesis
      by (simp add: get_urls_def st_def [symmetric])
  next
    case NumOther
    with stop show ?thesis by (simp add: get_urls_def st_def [symmetric])
  qed
qed

subsection \<open>Dense numbering and new pairs\<close>

lemma sorted_map_int_upt: "sorted (map int [0..<n])"
  by (induction n) (auto simp add: sorted_append)

lemma dense_iff:
  "dense rows \<longleftrightarrow>
   (\<forall>c. mset (map video_id (class_rows c rows)) = mset (map int [0..<length (class_rows c rows)]))"
proof
  assume d: "dense rows"
  show "\<forall>c. mset (map video_id (class_rows c rows)) = mset (map int [0..<length (class_rows c rows)])"
  proof
    fix c
    show "mset (map video_id (class_rows c rows)) = mset (map int [0..<length (class_rows c rows)])"
    proof (cases "c \<in> class_id ` set rows")
      case True
      with d have "sort (map video_id (class_rows c rows)) = map int [0..<length (class_rows c rows)]"
        by (auto simp add: dense_def)
      then have "mset (sort (map video_id (class_rows c rows)))
                 = mset (map int [0..<length (class_rows c rows)])"
        by simp
      then show ?thesis by (simp only: mset_sort)
    next
      case False
      then have "class_rows c rows = []" by (simp add: class_rows_empty_iff)
      then show ?thesis by simp
    qed
  qed
next
  assume a: "\<forall>c. mset (map video_id (class_rows c rows)) = mset (map int [0..<length (class_rows c rows)])"
  show "dense rows"
    unfolding dense_def
  proof
    fix c
    assume "c \<in> set (map class_id rows)"
    from a have "mset (map int [0..<length (class_rows c rows)]) = mset (map video_id (class_rows c rows))"
      by simp
    then show "sort (map video_id (class_rows c rows)) = map int [0..<length (class_rows c rows)]"
      using sorted_map_int_upt by (rule properties_for_sort)
  qed
qed

lemma dense_mset:
  assumes "mset rows = mset rows'"
  shows "dense rows = dense rows'"
proof -
  have eq: "mset (class_rows c rows) = mset (class_rows c rows')" for c
    using assms by (simp add: class_rows_def)
  have "mset (map video_id (class_rows c rows)) = mset (map video_id (class_rows c rows'))" for c
    using eq [of c] by (simp only: mset_map)
  moreover have "length (class_rows c rows) = length (class_rows c rows')" for c
    using eq [of c] by (rule mset_eq_length)
  ultimately show ?thesis by (simp only: dense_iff)
qed

lemma mset_upt_split:
  "mset (map int [0..<k]) + mset (map (\<lambda>j. int k + int j) [0..<m]) = mset (map int [0..<k + m])"
proof -
  have "map (\<lambda>j. int k + int j) [0..<m] = map int [k..<k + m]"
    by (rule nth_equalityI) simp_all
  moreover have "[0..<k + m] = [0..<k] @ [k..<k + m]"
    by (rule upt_add_eq_append) simp
  ultimately show ?thesis by (simp only: map_append mset_append)
qed

lemma dense_append:
  assumes "dense old" and "continues old new"
  shows "dense (old @ new)"
  unfolding dense_iff
proof
  fix c
  from assms(1) have "mset (map video_id (class_rows c old)) = mset (map int [0..<length (class_rows c old)])"
    by (simp add: dense_iff)
  moreover from assms(2) have "map video_id (class_rows c new) =
      map (\<lambda>j. int (length (class_rows c old)) + int j) [0..<length (class_rows c new)]"
    by (simp only: continues_def)
  ultimately have "mset (map video_id (class_rows c old)) + mset (map video_id (class_rows c new))
        = mset (map int [0..<length (class_rows c old) + length (class_rows c new)])"
    by (simp only: mset_upt_split)
  then show "mset (map video_id (class_rows c (old @ new)))
        = mset (map int [0..<length (class_rows c (old @ new))])"
    by (simp only: class_rows_append map_append mset_append length_append)
qed

text \<open>
  Claim C7. When the ledger is dense in every class, the ledger file after a run of
  \<^verbatim>\<open>get_urls\<close>, whether the run returned or raised, holds the old rows and the new
  ones, is dense in every class, and the new rows of a class are numbered from the number
  of its old rows on, which is one more than their largest \<^verbatim>\<open>video_id\<close>.
\<close>

theorem collector_keeps_video_ids_dense:
  assumes "dense (ledger_rows file)"
  shows "\<exists>rows new.
           ledger_file (final (get_urls driver classes num_videos kw platform file w)) = Some rows
         \<and> mset rows = mset (ledger_rows file) + mset new
         \<and> dense rows \<and> continues (ledger_rows file) new"
proof -
  from get_urls_ledger [of driver classes num_videos kw platform "file" w] obtain rows new where
    r: "ledger_file (final (get_urls driver classes num_videos kw platform file w)) = Some rows"
       "mset rows = mset (ledger_rows file) + mset new" "continues (ledger_rows file) new"
    by blast
  from assms r(3) have d: "dense (ledger_rows file @ new)" by (rule dense_append)
  have "mset rows = mset (ledger_rows file @ new)" using r(2) by simp
  from dense_mset [OF this] d have "dense rows" by simp
  with r show ?thesis by blast
qed

text \<open>
  Claim C2. Whatever the platform and the elements the browser shows, no row that a run
  of \<^verbatim>\<open>get_urls\<close> adds to the ledger file has the title and address of a row the ledger
  already had for the same \<^verbatim>\<open>class_id\<close>.
\<close>

theorem collector_adds_only_unseen_pairs:
  "\<exists>rows new.
      ledger_file (final (get_urls driver classes num_videos kw platform file w)) = Some rows
    \<and> mset rows = mset (ledger_rows file) + mset new
    \<and> unseen (ledger_rows file) new"
  using get_urls_ledger [of driver classes num_videos kw platform "file" w] by blast

subsection \<open>Examples\<close>

lemma cat_run:
  "get_urls (fixed_driver cat_page) [''cat''] (NumInt 2) [] ''youtube'' (Some cat_ledger) ()
   = Returned
       \<lparr>ledger_file = Some [\<lparr>class_id = 0, class_name = ''cat'', video_id = 0,
                               video_title = ''a'', video_url = ''https://a''\<rparr>,
                             \<lparr>class_id = 0, class_name = ''cat'', video_id = 1,
                               video_title = ''b'', video_url = ''https://b''\<rparr>],
        urls = [\<lparr>class_id = 0, class_name = ''cat'', video_id = 0,
                  video_title = ''a'', video_url = ''https://a''\<rparr>,
                \<lparr>class_id = 0, class_name = ''cat'', video_id = 1,
                  video_title = ''b'', video_url = ''https://b''\<rparr>],
        count_tracker = [(0, ''cat'', 2)],
        queries = [''https://www.youtube.com/results?search_query=cat+''],
        browser = ()\<rparr>"
  by code_simp

theorem collector_keeps_video_ids_dense_witness:
  "dense (ledger_rows (Some cat_ledger))
   \<and> (\<exists>rows new.
         ledger_file (final (get_urls (fixed_driver cat_page) [''cat''] (NumInt 2) []
                               ''youtube'' (Some cat_ledger) ())) = Some rows
       \<and> mset rows = mset (ledger_rows (Some cat_ledger)) + mset new
       \<and> dense rows \<and> continues (ledger_rows (Some cat_ledger)) new)
   \<and> ledger_file (final (get_urls (fixed_driver cat_page) [''cat''] (NumInt 2) []
                               ''youtube'' (Some cat_ledger) ()))
     = Some [\<lparr>class_id = 0, class_name = ''cat'', video_id = 0,
               video_title = ''a'', video_url = ''https://a''\<rparr>,
             \<lparr>class_id = 0, class_name = ''cat'', video_id = 1,
               video_title = ''b'', video_url = ''https://b''\<rparr>]"
proof -
  have h: "dense (ledger_rows (Some cat_ledger))"
    by (simp add: dense_def ledger_rows_def cat_ledger_def class_rows_def)
  have e: "ledger_file (final (get_urls (fixed_driver cat_page) [''cat''] (NumInt 2) []
                               ''youtube'' (Some cat_ledger) ()))
     = Some [\<lparr>class_id = 0, class_name = ''cat'', video_id = 0,
               video_title = ''a'', video_url = ''https://a''\<rparr>,
             \<lparr>class_id = 0, class_name = ''cat'', video_id = 1,
               video_title = ''b'', video_url = ''https://b''\<rparr>]"
    by (simp add: cat_run)
  show ?thesis
    by (intro conjI h e collector_keeps_video_ids_dense [OF h])
qed

theorem collector_adds_only_unseen_pairs_witness:
  "(\<exists>rows new.
      ledger_file (final (get_urls (fixed_driver cat_page) [''cat''] (NumInt 2) []
                            ''bilibili'' (Some cat_ledger) ())) = Some rows
    \<and> mset rows = mset (ledger_rows (Some cat_ledger)) + mset new
    \<and> unseen (ledger_rows (Some cat_ledger)) new)
   \<and> (\<exists>rows new.
      ledger_file (final (get_urls (fixed_driver cat_page) [''cat''] (NumInt 2) []
                            ''youtube'' (Some cat_ledger) ())) = Some rows
    \<and> mset rows = mset (ledger_rows (Some cat_ledger)) + mset new
    \<and> unseen (ledger_rows (Some cat_ledger)) new)"
  using collector_adds_only_unseen_pairs
          [of "fixed_driver cat_page" "[''cat'']" "NumInt 2" "[]" "''bilibili''" "Some cat_ledger" "()"]
        collector_adds_only_unseen_pairs
          [of "fixed_driver cat_page" "[''cat'']" "NumInt 2" "[]" "''youtube''" "Some cat_ledger" "()"]
  by (rule conjI)

subsection \<open>A platform that is not supported\<close>

lemma search_class_unsupported:
  assumes "py_lower platform \<noteq> ''youtube''" and "py_lower platform \<noteq> ''bilibili''"
  shows "search_class driver kw platform nums cid cls st =
         (if wanting nums (urls st) cid then Raised ValueError st
          else Returned (st\<lparr>count_tracker := count_tracker st
                  @ [(int cid, cls, int (length (omit_list (int cid) (urls st))))]\<rparr>))"
  using assms by (auto simp add: search_class_def wanting_def Let_def omit_list_length)

lemma search_classes_unsupported:
  assumes "py_lower platform \<noteq> ''youtube''" and "py_lower platform \<noteq> ''bilibili''"
  shows "(\<exists>st'. search_classes driver kw platform nums cs st
            = (if \<exists>p \<in> set cs. wanting nums (urls st) (fst p) then Raised ValueError st'
               else Returned st')
          \<and> urls st' = urls st \<and> queries st' = queries st \<and> browser st' = browser st
          \<and> ledger_file st' = ledger_file st)"
proof (induction cs arbitrary: st)
  case Nil
  show ?case by simp
next
  case (Cons a cs)
  obtain cid cls where a: "a = (cid, cls)" by (cases a)
  show ?case
  proof (cases "wanting nums (urls st) cid")
    case True
    then show ?thesis using a by (simp add: search_class_unsupported [OF assms])
  next
    case False
    define st1 where "st1 = st\<lparr>count_tracker := count_tracker st
                  @ [(int cid, cls, int (length (omit_list (int cid) (urls st))))]\<rparr>"
    have s1: "search_class driver kw platform nums cid cls st = Returned st1"
      using False by (simp add: search_class_unsupported [OF assms] st1_def)
    have f: "urls st1 = urls st" "queries st1 = queries st" "browser st1 = browser st"
      "ledger_file st1 = ledger_file st"
      by (simp_all add: st1_def)
    from Cons.IH [of st1] obtain st' where
      "search_classes driver kw platform nums cs st1
            = (if \<exists>p \<in> set cs. wanting nums (urls st1) (fst p) then Raised ValueError st'
               else Returned st')"
      "urls st' = urls st1" "queries st' = queries st1" "browser st' = browser st1"
      "ledger_file st' = ledger_file st1"
      by blast
    then have "search_classes driver kw platform nums (a # cs) st
            = (if \<exists>p \<in> set (a # cs). wanting nums (urls st) (fst p) then Raised ValueError st'
               else Returned st')
          \<and> urls st' = urls st \<and> queries st' = queries st \<and> browser st' = browser st
          \<and> ledger_file st' = ledger_file st"
      using s1 f False a by simp
    then show ?thesis by blast
  qed
qed

lemma wanting_enumerate:
  "(\<exists>p \<in> set (enumerate 0 classes). wanting nums rows (fst p))
   \<longleftrightarrow> (\<exists>cid < length classes. wanting nums rows cid)"
  by (auto simp add: in_set_enumerate_eq intro: bexI [of _ "(cid, classes ! cid)" for cid])

subsection \<open>Errors of the configuration\<close>

lemma get_urls_bad_length:
  assumes "length ns \<noteq> length classes"
  shows "get_urls driver classes (NumList ns) kw platform file w
         = Raised AssertionError \<lparr>ledger_file = Some (ledger_rows file), urls = ledger_rows file,
                                   count_tracker = [], queries = [], browser = w\<rparr>"
  using assms by (simp add: get_urls_def ledger_rows_def split: option.splits)

lemma get_urls_other_type:
  "get_urls driver classes NumOther kw platform file w
         = Raised TypeError \<lparr>ledger_file = Some (ledger_rows file), urls = ledger_rows file,
                              count_tracker = [], queries = [], browser = w\<rparr>"
  by (simp add: get_urls_def ledger_rows_def split: option.splits)

lemma get_urls_unsupported:
  assumes "py_lower platform \<noteq> ''youtube''" and "py_lower platform \<noteq> ''bilibili''"
    and "targets num_videos classes = Some nums"
  shows "\<exists>st'. get_urls driver classes num_videos kw platform file w
            = (if \<exists>cid < length classes. wanting nums (ledger_rows file) cid
               then Raised ValueError (st'\<lparr>ledger_file := Some (ledger_rows file)\<rparr>)
               else Returned (st'\<lparr>ledger_file := Some (sort_values (ledger_rows file))\<rparr>))
          \<and> queries st' = [] \<and> browser st' = w"
proof -
  define st where "st = (case file of
                  Some rows \<Rightarrow> \<lparr>ledger_file = Some rows, urls = rows, count_tracker = [],
                                queries = [], browser = w\<rparr>
                | None \<Rightarrow> \<lparr>ledger_file = Some [], urls = [], count_tracker = [],
                           queries = [], browser = w\<rparr>)"
  have st: "ledger_file st = Some (ledger_rows file)" "urls st = ledger_rows file"
    "queries st = []" "browser st = w"
    by (simp_all add: st_def ledger_rows_def split: option.splits)
  from search_classes_unsupported [OF assms(1,2), of driver kw nums "enumerate 0 classes" st]
  obtain st' where st':
    "search_classes driver kw platform nums (enumerate 0 classes) st
       = (if \<exists>cid < length classes. wanting nums (ledger_rows file) cid
          then Raised ValueError st' else Returned st')"
    "urls st' = ledger_rows file" "queries st' = []" "browser st' = w"
    "ledger_file st' = Some (ledger_rows file)"
    unfolding wanting_enumerate st by blast
  have run: "get_urls driver classes num_videos kw platform file w
       = (case search_classes driver kw platform nums (enumerate 0 classes) st of
            Raised e st' \<Rightarrow> Raised e st'
          | Returned st' \<Rightarrow> Returned (st'\<lparr>ledger_file := Some (sort_values (urls st')),
                                          urls := sort_values (urls st')\<rparr>))"
    using assms(3)
    by (cases num_videos) (auto simp add: get_urls_def targets_def st_def split: if_splits)
  show ?thesis
  proof (cases "\<exists>cid < length classes. wanting nums (ledger_rows file) cid")
    case True
    with run st' have "get_urls driver classes num_videos kw platform file w
        = Raised ValueError (st'\<lparr>ledger_file := Some (ledger_rows file)\<rparr>)"
      by simp
    with True st'(3,4) show ?thesis by auto
  next
    case False
    define st2 where "st2 = st'\<lparr>urls := sort_values (ledger_rows file)\<rparr>"
    from False run st' have "get_urls driver classes num_videos kw platform file w
        = Returned (st2\<lparr>ledger_file := Some (sort_values (ledger_rows file))\<rparr>)"
      by (simp add: st2_def)
    moreover have "queries st2 = [] \<and> browser st2 = w" using st'(3,4) by (simp add: st2_def)
    ultimately show ?thesis using False by auto
  qed
qed

text \<open>
  Claim C5, as amended. When the list \<^verbatim>\<open>num_videos\<close> has not the length of \<^verbatim>\<open>classes\<close>,
  \<^verbatim>\<open>get_urls\<close> raises \<open>AssertionError\<close>. When the platform is not supported, it raises
  \<open>ValueError\<close> exactly if some class has fewer rows than its target, and returns
  otherwise. In both situations no address has been sent to the browser, the rows of the
  ledger are what they were, and the ledger file exists after the run: a missing file was
  created before either check.
\<close>

theorem configuration_errors_come_before_any_search:
  assumes out: "out = get_urls driver classes num_videos kw platform file w"
    and bad: "(\<exists>ns. num_videos = NumList ns \<and> length ns \<noteq> length classes)
            \<or> (py_lower platform \<noteq> ''youtube'' \<and> py_lower platform \<noteq> ''bilibili'')"
  shows "queries (final out) = [] \<and> browser (final out) = w
       \<and> ledger_file (final out) \<noteq> None
       \<and> mset (ledger_rows (ledger_file (final out))) = mset (ledger_rows file)
       \<and> ((\<exists>ns. num_videos = NumList ns \<and> length ns \<noteq> length classes)
            \<longrightarrow> (\<exists>st. out = Raised AssertionError st))
       \<and> (\<forall>nums. targets num_videos classes = Some nums \<longrightarrow>
            ((\<exists>cid < length classes. wanting nums (ledger_rows file) cid)
              \<longleftrightarrow> (\<exists>st. out = Raised ValueError st)))"
proof (cases "targets num_videos classes")
  case None
  then have "num_videos = NumOther \<or> (\<exists>ns. num_videos = NumList ns \<and> length ns \<noteq> length classes)"
    by (cases num_videos) (auto simp add: targets_def split: if_splits)
  then show ?thesis
  proof
    assume "num_videos = NumOther"
    with None show ?thesis unfolding out
      by (simp add: get_urls_other_type ledger_rows_def)
  next
    assume "\<exists>ns. num_videos = NumList ns \<and> length ns \<noteq> length classes"
    then obtain ns where "num_videos = NumList ns" "length ns \<noteq> length classes" by blast
    with None show ?thesis unfolding out
      by (simp add: get_urls_bad_length ledger_rows_def)
  qed
next
  case (Some nums)
  then have wf: "\<not> (\<exists>ns. num_videos = NumList ns \<and> length ns \<noteq> length classes)"
    by (cases num_videos) (auto simp add: targets_def split: if_splits)
  with bad have un: "py_lower platform \<noteq> ''youtube''" "py_lower platform \<noteq> ''bilibili''"
    by blast+
  from get_urls_unsupported [OF un Some, of driver kw "file" w] obtain st' where st':
    "out = (if \<exists>cid < length classes. wanting nums (ledger_rows file) cid
               then Raised ValueError (st'\<lparr>ledger_file := Some (ledger_rows file)\<rparr>)
               else Returned (st'\<lparr>ledger_file := Some (sort_values (ledger_rows file))\<rparr>))"
    "queries st' = []" "browser st' = w"
    unfolding out by blast
  show ?thesis
  proof (cases "\<exists>cid < length classes. wanting nums (ledger_rows file) cid")
    case True
    with st' have "out = Raised ValueError (st'\<lparr>ledger_file := Some (ledger_rows file)\<rparr>)"
      by simp
    with st'(2,3) True wf Some show ?thesis by (simp add: ledger_rows_def)
  next
    case False
    with st' have "out = Returned (st'\<lparr>ledger_file := Some (sort_values (ledger_rows file))\<rparr>)"
      by simp
    with st'(2,3) False wf Some show ?thesis by (simp add: ledger_rows_def sort_values_def)
  qed
qed

text \<open>
  Claim C5 as stated fails twice. With a list of the wrong length and no ledger file, the
  file exists, empty, when \<open>AssertionError\<close> is raised. With a platform that is not
  supported and no class below its target, nothing is raised and the file is written.
\<close>

theorem configuration_error_after_side_effect:
  "get_urls (fixed_driver []) [''cat''] (NumList []) [] ''youtube'' None ()
     = Raised AssertionError
         \<lparr>ledger_file = Some [], urls = [], count_tracker = [], queries = [], browser = ()\<rparr>
   \<and> get_urls (fixed_driver []) [''cat''] (NumInt 0) [] ''vimeo'' None ()
     = Returned
         \<lparr>ledger_file = Some [], urls = [], count_tracker = [(0, ''cat'', 0)], queries = [],
            browser = ()\<rparr>"
  by code_simp

theorem configuration_errors_come_before_any_search_witness:
  "(\<exists>st. get_urls (fixed_driver cat_page) [''cat''] (NumInt 2) [] ''vimeo'' (Some cat_ledger) ()
          = Raised ValueError st)
   \<and> queries (final (get_urls (fixed_driver cat_page) [''cat''] (NumInt 2) [] ''vimeo''
                       (Some cat_ledger) ())) = []
   \<and> mset (ledger_rows (ledger_file (final (get_urls (fixed_driver cat_page) [''cat'']
                       (NumInt 2) [] ''vimeo'' (Some cat_ledger) ()))))
     = mset (ledger_rows (Some cat_ledger))"
proof -
  have bad: "(\<exists>ns. NumInt 2 = NumList ns \<and> length ns \<noteq> length [''cat''])
            \<or> (py_lower ''vimeo'' \<noteq> ''youtube'' \<and> py_lower ''vimeo'' \<noteq> ''bilibili'')"
    by (simp add: py_lower_def)
  have t: "targets (NumInt 2) [''cat''] = Some [2]" by (simp add: targets_def)
  have w: "\<exists>cid < length [''cat'']. wanting [2] (ledger_rows (Some cat_ledger)) cid"
    by (simp add: wanting_def ledger_rows_def cat_ledger_def class_rows_def)
  note T = configuration_errors_come_before_any_search [OF refl bad]
  note last = T [THEN conjunct2, THEN conjunct2, THEN conjunct2, THEN conjunct2, THEN conjunct2,
                 THEN spec, THEN mp, OF t]
  from last w have "\<exists>st. get_urls (fixed_driver cat_page) [''cat''] (NumInt 2) [] ''vimeo''
      (Some cat_ledger) () = Raised ValueError st"
    by (rule iffD1)
  moreover note T [THEN conjunct1]
  moreover note T [THEN conjunct2, THEN conjunct2, THEN conjunct2, THEN conjunct1]
  ultimately show ?thesis by (intro conjI)
qed

section \<open>Properties of the Fetcher\<close>

subsection \<open>What main marks as downloaded\<close>

lemma mark_files_eq:
  "mark_files True files vs =
     Inr (map (\<lambda>r. r\<lparr>download := download r \<or> video_name r \<in> split_dot_0 ` set files\<rparr>) vs)"
proof (induction files arbitrary: vs)
  case Nil
  show ?case by (simp add: map_idI)
next
  case (Cons f files)
  have "map ((\<lambda>r. r\<lparr>download := download r \<or> video_name r \<in> split_dot_0 ` set files\<rparr>)
             \<circ> (\<lambda>r. if video_name r = split_dot_0 f then r\<lparr>download := True\<rparr> else r)) vs
        = map (\<lambda>r. r\<lparr>download := download r \<or> video_name r \<in> split_dot_0 ` set (f # files)\<rparr>) vs"
    by (rule map_cong) auto
  then show ?case by (simp add: Cons.IH)
qed

lemma mark_classes_eq:
  assumes "\<forall>e \<in> set entries. snd e \<noteq> File"
  shows "mark_classes True entries vs =
     Inr (map (\<lambda>r. r\<lparr>download := download r
                       \<or> video_name r \<in> split_dot_0 ` set (listed_files entries)\<rparr>) vs)"
  using assms
proof (induction entries arbitrary: vs)
  case Nil
  show ?case by (simp add: listed_files_def map_idI)
next
  case (Cons e entries)
  from Cons.prems obtain class_dir files where e: "e = (class_dir, Dir files)"
    by (cases e; cases "snd e") auto
  from Cons.prems have rest: "\<forall>e \<in> set entries. snd e \<noteq> File" by simp
  have l: "listed_files (e # entries) = files @ listed_files entries"
    by (simp add: listed_files_def e)
  have "map ((\<lambda>r. r\<lparr>download := download r
                       \<or> video_name r \<in> split_dot_0 ` set (listed_files entries)\<rparr>)
             \<circ> (\<lambda>r. r\<lparr>download := download r \<or> video_name r \<in> split_dot_0 ` set files\<rparr>)) vs
        = map (\<lambda>r. r\<lparr>download := download r
                       \<or> video_name r \<in> split_dot_0 ` set (listed_files (e # entries))\<rparr>) vs"
    unfolding l by (rule map_cong) (auto simp add: image_Un)
  then show ?case by (simp add: e mark_files_eq Cons.IH [OF rest])
qed

lemma check_downloaded_eq:
  assumes "\<forall>e \<in> set entries. snd e \<noteq> File"
  shows "check_downloaded True (Directory entries) vs =
     Inr (map (\<lambda>r. r\<lparr>download := video_name r \<in> split_dot_0 ` set (listed_files entries)\<rparr>) vs)"
proof -
  have "map ((\<lambda>r. r\<lparr>download := download r
                       \<or> video_name r \<in> split_dot_0 ` set (listed_files entries)\<rparr>)
             \<circ> (\<lambda>r. r\<lparr>download := False\<rparr>)) vs
        = map (\<lambda>r. r\<lparr>download := video_name r \<in> split_dot_0 ` set (listed_files entries)\<rparr>) vs"
    by (rule map_cong) auto
  then show ?thesis by (simp add: mark_classes_eq [OF assms])
qed

text \<open>
  Claim C8. When the output directory holds directories only, lines 178 to 182 of
  \<^verbatim>\<open>main\<close> give every row the flag that says whether its \<^verbatim>\<open>video_name\<close> is the part
  before the first dot of a name listed in any of these directories. The flag the file
  had is not read, and the \<^verbatim>\<open>class_id\<close> of the row plays no part. \<^verbatim>\<open>main\<close> hands exactly
  this frame to \<^verbatim>\<open>download_videos\<close>.
\<close>

theorem main_marks_rows_with_a_file_on_disk:
  assumes "tree st = Directory entries"
    and "\<forall>e \<in> set entries. snd e \<noteq> File"
    and "platform = ''youtube'' \<or> platform = ''bilibili''"
  shows "check_downloaded True (tree st) (videos st) =
           Inr (map (\<lambda>r. r\<lparr>download := video_name r \<in> split_dot_0 ` set (listed_files entries)\<rparr>)
                    (videos st))
       \<and> main B True platform cap output_path st =
           (case download_videos B output_path cap platform ''.mp4''
                   (st\<lparr>videos := map (\<lambda>r. r\<lparr>download :=
                               video_name r \<in> split_dot_0 ` set (listed_files entries)\<rparr>)
                             (videos st)\<rparr>) of
              Raised e st' \<Rightarrow> Raised e (st'\<lparr>videos := videos st\<rparr>)
            | Returned st' \<Rightarrow> Returned st')"
proof -
  have cd: "check_downloaded True (tree st) (videos st) =
           Inr (map (\<lambda>r. r\<lparr>download := video_name r \<in> split_dot_0 ` set (listed_files entries)\<rparr>)
                    (videos st))"
    unfolding assms(1) by (rule check_downloaded_eq [OF assms(2)])
  moreover have "main B True platform cap output_path st =
           (case download_videos B output_path cap platform ''.mp4''
                   (st\<lparr>videos := map (\<lambda>r. r\<lparr>download :=
                               video_name r \<in> split_dot_0 ` set (listed_files entries)\<rparr>)
                             (videos st)\<rparr>) of
              Raised e st' \<Rightarrow> Raised e (st'\<lparr>videos := videos st\<rparr>)
            | Returned st' \<Rightarrow> Returned st')"
    using assms(3) cd by (auto simp add: main_def)
  ultimately show ?thesis by (rule conjI)
qed

theorem main_marks_rows_with_a_file_on_disk_witness:
  "check_downloaded True
       (tree (one_video_state ''b'' True (Directory [(''7'', Dir [''b.tar.gz''])])))
       (videos (one_video_state ''b'' True (Directory [(''7'', Dir [''b.tar.gz''])])))
     = Inr [one_video ''b'' True]
   \<and> check_downloaded True
       (tree (one_video_state ''c'' True (Directory [(''7'', Dir [''b.tar.gz''])])))
       (videos (one_video_state ''c'' True (Directory [(''7'', Dir [''b.tar.gz''])])))
     = Inr [one_video ''c'' False]"
proof -
  have t: "tree (one_video_state name flag (Directory [(''7'', Dir [''b.tar.gz''])]))
           = Directory [(''7'', Dir [''b.tar.gz''])]" for name flag
    by (simp add: one_video_state_def)
  have d: "\<forall>e \<in> set [(''7'', Dir [''b.tar.gz''])]. snd e \<noteq> File" by simp
  have p: "''youtube'' = ''youtube'' \<or> ''youtube'' = ''bilibili''" by simp
  note b = main_marks_rows_with_a_file_on_disk [OF t d p, THEN conjunct1, of "''b''" True]
  note c = main_marks_rows_with_a_file_on_disk [OF t d p, THEN conjunct1, of "''c''" True]
  have "split_dot_0 ''b.tar.gz'' = ''b''" by (simp add: split_dot_0_def)
  then show ?thesis
    using b c by (simp add: one_video_state_def one_video_def listed_files_def)
qed

text \<open>
  Claim C3 fails on the code for a \<^verbatim>\<open>video_name\<close> with a dot in it. The row is named
  \<^verbatim>\<open>a.b\<close> and its file \<^verbatim>\<open>a.b.mp4\<close> is in the directory of its class, but
  \<^verbatim>\<open>'a.b.mp4'.split('.')[0]\<close> is \<^verbatim>\<open>a\<close>: the row is not marked, and the download is
  requested again.
\<close>

theorem file_with_dotted_name_is_downloaded_again:
  "check_downloaded True (Directory [(''0'', Dir [''a.b.mp4''])]) [one_video ''a.b'' False]
     = Inr [one_video ''a.b'' False]
   \<and> requests (final (main (steady_backends True) True ''youtube'' None ''out''
        (one_video_state ''a.b'' False (Directory [(''0'', Dir [''a.b.mp4''])]))))
     = [(0, ''https://www.youtube.com/watch?v=a.b&t=1'', ''a.b.mp4'', ''out/0'')]
   \<and> get_youtube_video_id ''https://www.youtube.com/watch?v=a.b&t=1'' = Inr ''a.b''"
  by code_simp

subsection \<open>Counting the downloaded rows of a class\<close>

lemma count_downloaded_append:
  "count_downloaded c (xs @ ys) = count_downloaded c xs + count_downloaded c ys"
  by (simp add: count_downloaded_def)

lemma count_downloaded_Cons:
  "count_downloaded c (r # rs) = (if class_id r = c \<and> download r then 1 else 0) + count_downloaded c rs"
  by (simp add: count_downloaded_def)

lemma count_downloaded_update:
  assumes "i < length vs"
  shows "count_downloaded c (vs[i := r]) =
         count_downloaded c vs - (if class_id (vs ! i) = c \<and> download (vs ! i) then 1 else 0)
           + (if class_id r = c \<and> download r then 1 else 0)"
proof -
  have "vs = take i vs @ vs ! i # drop (Suc i) vs"
    using assms by (simp add: id_take_nth_drop)
  then have a: "count_downloaded c vs = count_downloaded c (take i vs)
        + (if class_id (vs ! i) = c \<and> download (vs ! i) then 1 else 0)
        + count_downloaded c (drop (Suc i) vs)"
    by (metis count_downloaded_append count_downloaded_Cons add.assoc)
  have "vs[i := r] = take i vs @ r # drop (Suc i) vs"
    using assms by (simp add: upd_conv_take_nth_drop)
  then have b: "count_downloaded c (vs[i := r]) = count_downloaded c (take i vs)
        + (if class_id r = c \<and> download r then 1 else 0)
        + count_downloaded c (drop (Suc i) vs)"
    by (simp add: count_downloaded_append count_downloaded_Cons)
  from a b show ?thesis by simp
qed

lemma count_downloaded_set_flag:
  assumes "i < length vs" and "\<not> download (vs ! i)"
  shows "count_downloaded c (vs[i := (vs ! i)\<lparr>download := ok\<rparr>]) =
         count_downloaded c vs + (if class_id (vs ! i) = c \<and> ok then 1 else 0)"
  using assms by (simp add: count_downloaded_update)

subsection \<open>The rows of a class and their copy\<close>

lemma pending_videos_by_class: "pending cid (videos_by_class cid vs) vs"
proof -
  have "distinct (map fst (enumerate 0 vs))" by simp
  then have "distinct (map fst (videos_by_class cid vs))"
    unfolding videos_by_class_def by (rule distinct_map_filter)
  moreover have "\<forall>p \<in> set (videos_by_class cid vs). fst p < length vs
       \<and> class_id (vs ! fst p) = cid \<and> vs ! fst p = snd p"
    by (auto simp add: videos_by_class_def in_set_enumerate_eq)
  ultimately show ?thesis unfolding pending_def by (rule conjI)
qed

lemma pending_Cons:
  assumes "pending cid ((i, row) # rows) vs"
  shows "i < length vs" and "class_id (vs ! i) = cid" and "vs ! i = row"
    and "pending cid rows vs" and "i \<notin> fst ` set rows"
  using assms by (auto simp add: pending_def)

lemma pending_update:
  assumes "pending cid rows vs" and "i \<notin> fst ` set rows"
  shows "pending cid rows (vs[i := r])"
  unfolding pending_def
proof (intro conjI ballI)
  show "distinct (map fst rows)" using assms(1) by (simp add: pending_def)
next
  fix p
  assume p: "p \<in> set rows"
  with assms(2) have ne: "fst p \<noteq> i" by auto
  from assms(1) p have "fst p < length vs \<and> class_id (vs ! fst p) = cid \<and> vs ! fst p = snd p"
    unfolding pending_def by blast
  with ne show "fst p < length (vs[i := r])" "class_id (vs[i := r] ! fst p) = cid"
    "vs[i := r] ! fst p = snd p"
    by auto
qed

subsection \<open>A rule for the loop over the rows\<close>

lemma download_rows_Nil: "download_rows B platform ext dir name cap [] cnt st = Returned (cnt, st)"
  by simp

lemma download_rows_capped:
  "capped cap cnt \<Longrightarrow>
   download_rows B platform ext dir name cap ((i, row) # rows) cnt st = Returned (cnt, st)"
  by (simp add: capped_def)

lemma download_rows_skip:
  "\<not> capped cap cnt \<Longrightarrow> download row \<Longrightarrow>
   download_rows B platform ext dir name cap ((i, row) # rows) cnt st
     = download_rows B platform ext dir name cap rows cnt st"
  by (simp add: capped_def)

lemma download_rows_unsupported:
  "\<not> capped cap cnt \<Longrightarrow> \<not> download row \<Longrightarrow> \<not> supported platform \<Longrightarrow>
   download_rows B platform ext dir name cap ((i, row) # rows) cnt st
     = Raised UnboundLocalError (cnt, st)"
  by (simp add: capped_def supported_def)

lemma download_rows_attempt:
  "\<not> capped cap cnt \<Longrightarrow> \<not> download row \<Longrightarrow> supported platform \<Longrightarrow>
   download_rows B platform ext dir name cap ((i, row) # rows) cnt st
     = download_rows B platform ext dir name cap rows
         (cnt + (if fst (attempt B platform ext dir (network st) row) then 1 else 0))
         (record_download i (video_url row) (file_name platform ext row) dir name
            (attempt B platform ext dir (network st) row) st)"
  by (auto simp add: capped_def supported_def attempt_def file_name_def split: prod.splits)

lemma download_rows_rule:
  assumes init: "P rows cnt st"
    and skip: "\<And>i row rows cnt st. P ((i, row) # rows) cnt st \<Longrightarrow> \<not> capped cap cnt
                 \<Longrightarrow> download row \<Longrightarrow> P rows cnt st"
    and step: "\<And>i row rows cnt st. P ((i, row) # rows) cnt st \<Longrightarrow> \<not> capped cap cnt
                 \<Longrightarrow> \<not> download row \<Longrightarrow> supported platform
                 \<Longrightarrow> P rows (cnt + (if fst (attempt B platform ext dir (network st) row) then 1 else 0))
                       (record_download i (video_url row) (file_name platform ext row) dir name
                          (attempt B platform ext dir (network st) row) st)"
    and finish: "\<And>cnt st. P [] cnt st \<Longrightarrow> R (Returned (cnt, st))"
    and stop: "\<And>i row rows cnt st. P ((i, row) # rows) cnt st \<Longrightarrow> capped cap cnt
                 \<Longrightarrow> R (Returned (cnt, st))"
    and fail: "\<And>i row rows cnt st. P ((i, row) # rows) cnt st \<Longrightarrow> \<not> capped cap cnt
                 \<Longrightarrow> \<not> download row \<Longrightarrow> \<not> supported platform
                 \<Longrightarrow> R (Raised UnboundLocalError (cnt, st))"
  shows "R (download_rows B platform ext dir name cap rows cnt st)"
  using init
proof (induction rows arbitrary: cnt st)
  case Nil
  then show ?case by (simp add: finish)
next
  case (Cons p rows)
  obtain i row where p: "p = (i, row)" by (cases p)
  note P = Cons.prems [unfolded p]
  consider (a) "capped cap cnt" | (b) "\<not> capped cap cnt" "download row"
    | (c) "\<not> capped cap cnt" "\<not> download row" "supported platform"
    | (d) "\<not> capped cap cnt" "\<not> download row" "\<not> supported platform"
    by blast
  then show ?case
  proof cases
    case a
    with stop [OF P] show ?thesis by (simp only: p download_rows_capped [OF a])
  next
    case b
    from Cons.IH [OF skip [OF P b]] show ?thesis by (simp only: p download_rows_skip [OF b])
  next
    case c
    from Cons.IH [OF step [OF P c]] show ?thesis by (simp only: p download_rows_attempt [OF c])
  next
    case d
    from fail [OF P d] show ?thesis by (simp only: p download_rows_unsupported [OF d])
  qed
qed

lemma videos_record_download [simp]:
  "videos (record_download i u f dir name res st) = (videos st)[i := (videos st ! i)\<lparr>download := fst res\<rparr>]"
  by (cases res) (simp add: record_download_def)

lemma tree_record_download [simp]:
  "tree (record_download i u f dir name res st) = add_files name (fst (snd res)) (tree st)"
  by (cases res) (simp add: record_download_def)

lemma requests_record_download [simp]:
  "requests (record_download i u f dir name res st) = requests st @ [(i, u, f, dir)]"
  by (cases res) (simp add: record_download_def)

lemma counts_record_download [simp]:
  "counts (record_download i u f dir name res st) = counts st"
  by (cases res) (simp add: record_download_def)

lemma unflagged_update:
  "i < length vs \<Longrightarrow> unflagged (vs[i := (vs ! i)\<lparr>download := b\<rparr>]) = unflagged vs"
  by (simp add: unflagged_def map_update list_update_same_conv)

subsection \<open>The cap on a class\<close>

lemma download_rows_counts:
  assumes "pending cid rows (videos st0)"
  shows "case final (download_rows B platform ext dir name cap rows
                       (count_downloaded cid (videos st0)) st0) of
           (cnt', st') \<Rightarrow>
             cnt' = count_downloaded cid (videos st')
           \<and> (\<forall>k. cap = Some k \<longrightarrow> cnt' \<le> max k (count_downloaded cid (videos st0)))
           \<and> (\<forall>c. c \<noteq> cid \<longrightarrow> count_downloaded c (videos st') = count_downloaded c (videos st0))
           \<and> unflagged (videos st') = unflagged (videos st0)"
proof -
  define c0 where "c0 = count_downloaded cid (videos st0)"
  define P where "P = (\<lambda>rows cnt (st :: 'a fetcher).
      pending cid rows (videos st) \<and> cnt = count_downloaded cid (videos st)
    \<and> (\<forall>k. cap = Some k \<longrightarrow> cnt \<le> max k c0)
    \<and> (\<forall>c. c \<noteq> cid \<longrightarrow> count_downloaded c (videos st) = count_downloaded c (videos st0))
    \<and> unflagged (videos st) = unflagged (videos st0))"
  define R where "R = (\<lambda>out :: (int \<times> 'a fetcher) outcome. case final out of
           (cnt', st') \<Rightarrow>
             cnt' = count_downloaded cid (videos st')
           \<and> (\<forall>k. cap = Some k \<longrightarrow> cnt' \<le> max k c0)
           \<and> (\<forall>c. c \<noteq> cid \<longrightarrow> count_downloaded c (videos st') = count_downloaded c (videos st0))
           \<and> unflagged (videos st') = unflagged (videos st0))"
  have "R (download_rows B platform ext dir name cap rows c0 st0)"
  proof (rule download_rows_rule [where P = P])
    show "P rows c0 st0" using assms by (simp add: P_def c0_def)
  next
    fix i row rows cnt and st :: "'a fetcher"
    assume "P ((i, row) # rows) cnt st"
    then show "P rows cnt st" by (auto simp add: P_def dest: pending_Cons(4))
  next
    fix i row rows cnt and st :: "'a fetcher"
    assume P: "P ((i, row) # rows) cnt st" and nc: "\<not> capped cap cnt" and nd: "\<not> download row"
    define ok where "ok = fst (attempt B platform ext dir (network st) row)"
    define st1 where "st1 = record_download i (video_url row) (file_name platform ext row) dir name
                          (attempt B platform ext dir (network st) row) st"
    from P have pend: "pending cid ((i, row) # rows) (videos st)" by (simp add: P_def)
    note pc = pending_Cons [OF pend]
    have v1: "videos st1 = (videos st)[i := (videos st ! i)\<lparr>download := ok\<rparr>]"
      by (simp add: st1_def ok_def)
    have nflag: "\<not> download (videos st ! i)" using pc(3) nd by simp
    have cnt1: "count_downloaded c (videos st1)
        = count_downloaded c (videos st) + (if cid = c \<and> ok then 1 else 0)" for c
      unfolding v1 using count_downloaded_set_flag [OF pc(1) nflag, of c ok] pc(2) by simp
    have "pending cid rows (videos st1)"
      unfolding v1 using pc(4,5) by (rule pending_update)
    moreover have "cnt + (if ok then 1 else 0) = count_downloaded cid (videos st1)"
      using P cnt1 [of cid] by (simp add: P_def)
    moreover have "\<forall>k. cap = Some k \<longrightarrow> cnt + (if ok then 1 else 0) \<le> max k c0"
      using nc by (auto simp add: capped_def)
    moreover have "\<forall>c. c \<noteq> cid \<longrightarrow> count_downloaded c (videos st1) = count_downloaded c (videos st0)"
      using P cnt1 by (auto simp add: P_def)
    moreover have "unflagged (videos st1) = unflagged (videos st0)"
      unfolding v1 using P pc(1) by (simp add: unflagged_update P_def)
    ultimately show "P rows (cnt + (if fst (attempt B platform ext dir (network st) row) then 1 else 0))
                       (record_download i (video_url row) (file_name platform ext row) dir name
                          (attempt B platform ext dir (network st) row) st)"
      unfolding P_def ok_def [symmetric] st1_def [symmetric] by blast
  qed (simp_all add: P_def R_def)
  then show ?thesis by (simp add: R_def c0_def)
qed

lemma download_classes_counts:
  "(\<forall>k. cap = Some k \<longrightarrow>
       count_downloaded c (videos (final (download_classes B root cap platform ext classes st)))
         \<le> max k (count_downloaded c (videos st)))
   \<and> unflagged (videos (final (download_classes B root cap platform ext classes st)))
       = unflagged (videos st)"
proof (induction classes arbitrary: st)
  case Nil
  show ?case by simp
next
  case (Cons a classes)
  obtain cid cls where a: "a = (cid, cls)" by (cases a)
  show ?case
  proof (cases "makedirs_class (str_int cid) (tree st)")
    case (Inl e)
    then show ?thesis by (simp add: a)
  next
    case (Inr tr)
    define st0 where "st0 = st\<lparr>tree := tr\<rparr>"
    have v0: "videos st0 = videos st" by (simp add: st0_def)
    define out where "out = download_rows B platform ext (os_path_join root (str_int cid))
                  (str_int cid) cap (videos_by_class cid (videos st))
                  (count_downloaded cid (videos st)) st0"
    obtain cnt' st' where f: "final out = (cnt', st')" by (cases "final out")
    have "cnt' = count_downloaded cid (videos st')
        \<and> (\<forall>k. cap = Some k \<longrightarrow> cnt' \<le> max k (count_downloaded cid (videos st)))
        \<and> (\<forall>c. c \<noteq> cid \<longrightarrow> count_downloaded c (videos st') = count_downloaded c (videos st))
        \<and> unflagged (videos st') = unflagged (videos st)"
      using download_rows_counts [where cid = cid and rows = "videos_by_class cid (videos st0)"
           and ?st0.0 = st0 and B = B and platform = platform and ext = ext
           and dir = "os_path_join root (str_int cid)" and name = "str_int cid" and cap = cap] f
      by (auto simp add: pending_videos_by_class v0 out_def [symmetric])
    then have r: "(\<forall>k. cap = Some k \<longrightarrow> cnt' \<le> max k (count_downloaded cid (videos st)))"
      "cnt' = count_downloaded cid (videos st')"
      "\<forall>c. c \<noteq> cid \<longrightarrow> count_downloaded c (videos st') = count_downloaded c (videos st)"
      "unflagged (videos st') = unflagged (videos st)"
      by blast+
    have bound: "\<forall>k. cap = Some k \<longrightarrow> count_downloaded c (videos st') \<le> max k (count_downloaded c (videos st))"
      using r(1,2,3) by (cases "c = cid") auto
    have unfold: "download_classes B root cap platform ext (a # classes) st
        = (case out of
             Raised e (cnt, st') \<Rightarrow> Raised e st'
           | Returned (cnt, st') \<Rightarrow>
               download_classes B root cap platform ext classes
                 (st'\<lparr>counts := counts st' @ [(cid, cls, cnt)],
                      tree := rmdir_class (str_int cid) (tree st')\<rparr>))"
      using Inr by (simp add: a out_def st0_def)
    show ?thesis
    proof (cases out)
      case (Raised e x)
      with f have "x = (cnt', st')" by simp
      with Raised have fin: "final (download_classes B root cap platform ext (a # classes) st) = st'"
        by (simp add: unfold)
      show ?thesis unfolding fin using bound r(4) by blast
    next
      case (Returned x)
      with f have x: "x = (cnt', st')" by simp
      define st2 where "st2 = st'\<lparr>counts := counts st' @ [(cid, cls, cnt')],
                      tree := rmdir_class (str_int cid) (tree st')\<rparr>"
      have v2: "videos st2 = videos st'" by (simp add: st2_def)
      have run: "download_classes B root cap platform ext (a # classes) st
                 = download_classes B root cap platform ext classes st2"
        using Returned x by (simp add: unfold st2_def)
      from Cons.IH [of st2] bound r(4) show ?thesis
        unfolding run v2 by auto
    qed
  qed
qed

text \<open>
  Claim C1, as amended. After a run of \<^verbatim>\<open>download_videos\<close> with the cap \<open>k\<close>, returned or
  raised, the rows of a class that are marked downloaded are at most \<open>k\<close>, or at most as
  many as were marked at the start when these were more than \<open>k\<close>.
\<close>

theorem cap_bounds_downloaded_rows:
  "count_downloaded c (videos (final (download_videos B root (Some k) platform ext st)))
     \<le> max k (count_downloaded c (videos st))"
proof (cases "makedirs_root (tree st)")
  case (Inl e)
  then show ?thesis by (simp add: download_videos_def)
next
  case (Inr tr)
  define st0 where "st0 = st\<lparr>tree := tr, counts := []\<rparr>"
  define out where "out = download_classes B root (Some k) platform ext
                  (drop_duplicates (map (\<lambda>r. (class_id r, class_name r)) (videos st))) st0"
  have "videos (final (download_videos B root (Some k) platform ext st)) = videos (final out)"
    using Inr
    by (cases out; cases "rmdir_root (tree (final out))")
       (simp_all add: download_videos_def out_def [symmetric] st0_def [symmetric])
  moreover have "count_downloaded c (videos (final out)) \<le> max k (count_downloaded c (videos st0))"
    unfolding out_def
    using download_classes_counts [where cap = "Some k" and c = c and B = B and root = root
            and platform = platform and ext = ext and st = st0]
    by simp
  moreover have "videos st0 = videos st" by (simp add: st0_def)
  ultimately show ?thesis by simp
qed

text \<open>
  Claim C1 as stated fails: two rows of the class are marked at the start, one is not, and
  the cap is 1. There are as many rows to download as the cap asks, and two rows are
  marked after the run.
\<close>

theorem cap_below_rows_already_downloaded:
  "count_downloaded 0 (videos (flagged_state [True, True, False] Missing)) = 2
   \<and> length (filter (\<lambda>r. class_id r = 0 \<and> \<not> download r)
        (videos (flagged_state [True, True, False] Missing))) = 1
   \<and> count_downloaded 0 (videos (final (download_videos (steady_backends True) ''out'' (Some 1)
        ''youtube'' ''.mp4'' (flagged_state [True, True, False] Missing)))) = 2"
  by code_simp

theorem cap_bounds_downloaded_rows_witness:
  "count_downloaded 0 (videos (final (download_videos (steady_backends True) ''out'' (Some 2)
        ''youtube'' ''.mp4'' (flagged_state [False, False, False] Missing))))
     \<le> max 2 (count_downloaded 0 (videos (flagged_state [False, False, False] Missing)))
   \<and> count_downloaded 0 (videos (final (download_videos (steady_backends True) ''out'' (Some 2)
        ''youtube'' ''.mp4'' (flagged_state [False, False, False] Missing)))) = 2"
proof -
  have "count_downloaded 0 (videos (final (download_videos (steady_backends True) ''out'' (Some 2)
        ''youtube'' ''.mp4'' (flagged_state [False, False, False] Missing)))) = 2"
    by code_simp
  with cap_bounds_downloaded_rows [where c = 0 and B = "steady_backends True" and root = "''out''"
         and k = 2 and platform = "''youtube''" and ext = "''.mp4''"
         and st = "flagged_state [False, False, False] Missing"]
  show ?thesis by (intro conjI)
qed

subsection \<open>The name of the directory of a class\<close>

lemma digits_value:
  "n < fuel \<Longrightarrow> foldl (\<lambda>a c. 10 * a + (of_char c - 48)) (0::nat) (digits fuel n) = n"
proof (induction fuel arbitrary: n)
  case 0
  then show ?case by simp
next
  case (Suc fuel)
  show ?case
  proof (cases "n < 10")
    case True
    then show ?thesis by simp
  next
    case False
    with Suc.prems have "n div 10 < fuel" by simp
    from Suc.IH [OF this] False have
      "foldl (\<lambda>a c. 10 * a + (of_char c - 48)) (0::nat) (digits (Suc fuel) n)
       = 10 * (n div 10) + (of_char (char_of (48 + n mod 10) :: char) - 48)"
      by simp
    also have "(of_char (char_of (48 + n mod 10) :: char) :: nat) = 48 + n mod 10"
      by (simp add: of_char_of)
    finally show ?thesis by simp
  qed
qed

lemma digits_no_minus: "CHR ''-'' \<notin> set (digits fuel n)"
proof (induction fuel arbitrary: n)
  case 0
  show ?case by simp
next
  case (Suc fuel)
  have "(char_of (48 + k) :: char) \<noteq> CHR ''-''" if "k < 10" for k :: nat
  proof
    assume "(char_of (48 + k) :: char) = CHR ''-''"
    then have "(of_char (char_of (48 + k) :: char) :: nat) = of_char (CHR ''-'')" by simp
    with that show False by (simp add: of_char_of)
  qed
  then have dig: "CHR ''-'' \<noteq> (char_of (48 + k) :: char)" if "k < 10" for k :: nat
    using that by fastforce
  show ?case
  proof (cases "n < 10")
    case True
    then show ?thesis by (simp add: dig)
  next
    case False
    have "n mod 10 < 10" by simp
    from dig [OF this] Suc.IH [of "n div 10"] False show ?thesis by simp
  qed
qed

lemma str_int_inject: "str_int a = str_int b \<Longrightarrow> a = b"
proof -
  assume e: "str_int a = str_int b"
  have v: "foldl (\<lambda>a c. 10 * a + (of_char c - 48)) (0::nat) (digits (Suc k) k) = k" for k
    by (rule digits_value) simp
  consider (pp) "0 \<le> a" "0 \<le> b" | (nn) "a < 0" "b < 0" | (pn) "0 \<le> a" "b < 0" | (np) "a < 0" "0 \<le> b"
    by linarith
  then show "a = b"
  proof cases
    case pp
    with e have "digits (Suc (nat a)) (nat a) = digits (Suc (nat b)) (nat b)"
      by (simp add: str_int_def)
    with v [of "nat a"] v [of "nat b"] have "nat a = nat b" by simp
    with pp show ?thesis by simp
  next
    case nn
    with e have "digits (Suc (nat (- a))) (nat (- a)) = digits (Suc (nat (- b))) (nat (- b))"
      by (simp add: str_int_def)
    with v [of "nat (- a)"] v [of "nat (- b)"] have "nat (- a) = nat (- b)" by simp
    with nn show ?thesis by simp
  next
    case pn
    then have "CHR ''-'' \<in> set (str_int b)" "CHR ''-'' \<notin> set (str_int a)"
      by (simp_all add: str_int_def digits_no_minus del: digits.simps)
    with e show ?thesis by simp
  next
    case np
    then have "CHR ''-'' \<in> set (str_int a)" "CHR ''-'' \<notin> set (str_int b)"
      by (simp_all add: str_int_def digits_no_minus del: digits.simps)
    with e show ?thesis by simp
  qed
qed

subsection \<open>What the loops do to one entry of the output directory\<close>

lemma is_directory_cases: "is_directory tr \<Longrightarrow> \<exists>entries. tr = Directory entries"
  by (cases tr) (simp_all add: is_directory_def)

lemma makedirs_class_entry:
  assumes "is_directory tr" and "makedirs_class n tr = Inr tr'"
  shows "is_directory tr'"
    and "class_dir nm tr' = (if n = nm \<and> class_dir nm tr = None then Some (Dir [])
                             else class_dir nm tr)"
proof -
  from assms(1) obtain entries where tr: "tr = Directory entries"
    by (auto dest: is_directory_cases)
  from assms(2) show "is_directory tr'"
    by (auto simp add: tr is_directory_def split: option.splits node.splits)
  from assms(2) show "class_dir nm tr' = (if n = nm \<and> class_dir nm tr = None then Some (Dir [])
                             else class_dir nm tr)"
    by (auto simp add: tr class_dir_def update_conv' split: option.splits node.splits)
qed

lemma add_files_entry:
  assumes "is_directory tr"
  shows "is_directory (add_files n files tr)"
    and "n \<noteq> nm \<Longrightarrow> class_dir nm (add_files n files tr) = class_dir nm tr"
    and "class_dir nm (add_files n [] tr) = class_dir nm tr"
proof -
  from assms obtain entries where tr: "tr = Directory entries"
    by (auto dest: is_directory_cases)
  show "is_directory (add_files n files tr)"
    by (auto simp add: tr is_directory_def split: option.splits node.splits)
  show "n \<noteq> nm \<Longrightarrow> class_dir nm (add_files n files tr) = class_dir nm tr"
    by (auto simp add: tr class_dir_def update_conv' split: option.splits node.splits)
  show "class_dir nm (add_files n [] tr) = class_dir nm tr"
    by (auto simp add: tr class_dir_def update_conv' split: option.splits node.splits)
qed

lemma rmdir_class_entry:
  assumes "is_directory tr"
  shows "is_directory (rmdir_class n tr)"
    and "class_dir nm (rmdir_class n tr)
         = (if n = nm \<and> class_dir nm tr = Some (Dir []) then None else class_dir nm tr)"
proof -
  from assms obtain entries where tr: "tr = Directory entries"
    by (auto dest: is_directory_cases)
  show "is_directory (rmdir_class n tr)"
    by (auto simp add: tr is_directory_def split: option.splits node.splits list.splits)
  show "class_dir nm (rmdir_class n tr)
         = (if n = nm \<and> class_dir nm tr = Some (Dir []) then None else class_dir nm tr)"
    by (auto simp add: tr class_dir_def delete_conv' split: option.splits node.splits list.splits)
qed

lemma set_drop_duplicates [simp]: "set (drop_duplicates xs) = set xs"
  by (induction xs rule: drop_duplicates.induct) auto

lemma makedirs_root_entry:
  assumes "makedirs_root tr0 = Inr tr"
  shows "is_directory tr" and "class_dir nm tr = class_dir nm tr0"
  using assms by (cases tr0; auto simp add: is_directory_def class_dir_def)+

lemma rmdir_root_cases:
  "rmdir_root tr = Inr tr' \<Longrightarrow> tr' = Missing"
  "rmdir_root tr = Inl OSError \<Longrightarrow> \<exists>e es. tr = Directory (e # es)"
  by (cases tr rule: rmdir_root.cases; auto)+

subsection \<open>How a run ends\<close>

lemma download_rows_raises:
  "download_rows B platform ext dir name cap rows cnt st = Raised e x \<Longrightarrow> e = UnboundLocalError"
proof -
  define R where "R = (\<lambda>out :: (int \<times> 'a fetcher) outcome.
      \<forall>e x. out = Raised e x \<longrightarrow> e = UnboundLocalError)"
  have "R (download_rows B platform ext dir name cap rows cnt st)"
    by (rule download_rows_rule [where P = "\<lambda>rows cnt st. True"]) (simp_all add: R_def)
  then show "download_rows B platform ext dir name cap rows cnt st = Raised e x
             \<Longrightarrow> e = UnboundLocalError"
    by (simp add: R_def)
qed

lemma makedirs_class_raises:
  "makedirs_class n tr = Inl e \<Longrightarrow> e = FileExistsError \<or> e = NotADirectoryError"
  by (cases tr) (auto split: option.splits node.splits)

lemma download_classes_raises:
  "download_classes B root cap platform ext classes st = Raised e x \<Longrightarrow> e \<noteq> OSError"
proof (induction classes arbitrary: st)
  case Nil
  then show ?case by simp
next
  case (Cons a classes)
  obtain cid cls where a: "a = (cid, cls)" by (cases a)
  show ?case
  proof (cases "makedirs_class (str_int cid) (tree st)")
    case (Inl e')
    with Cons.prems a have "e = e'" by simp
    with makedirs_class_raises [OF Inl] show ?thesis by auto
  next
    case (Inr tr)
    define out where "out = download_rows B platform ext (os_path_join root (str_int cid))
                  (str_int cid) cap (videos_by_class cid (videos st))
                  (count_downloaded cid (videos st)) (st\<lparr>tree := tr\<rparr>)"
    show ?thesis
    proof (cases out)
      case (Raised e' y)
      with Cons.prems a Inr have "e = e'"
        by (simp add: out_def [symmetric] split: prod.splits)
      with download_rows_raises [OF Raised [unfolded out_def]] show ?thesis by simp
    next
      case (Returned y)
      obtain cnt st1 where y: "y = (cnt, st1)" by (cases y)
      from Cons.prems a Inr Returned y
      have "download_classes B root cap platform ext classes
                 (st1\<lparr>counts := counts st1 @ [(cid, cls, cnt)],
                      tree := rmdir_class (str_int cid) (tree st1)\<rparr>) = Raised e x"
        by (simp add: out_def [symmetric])
      then show ?thesis by (rule Cons.IH)
    qed
  qed
qed

lemma download_videos_ends:
  assumes "download_videos B root cap platform ext st = out"
    and "out = Returned s \<or> out = Raised OSError s"
  shows "\<exists>tr st'. makedirs_root (tree st) = Inr tr
       \<and> download_classes B root cap platform ext
            (drop_duplicates (map (\<lambda>r. (class_id r, class_name r)) (videos st)))
            (st\<lparr>tree := tr, counts := []\<rparr>) = Returned st'
       \<and> (if 0 < total_count (counts st') then out = Returned s \<and> s = st'
           else case rmdir_root (tree st') of
                  Inl e \<Rightarrow> out = Raised e s \<and> s = st'
                | Inr tr' \<Rightarrow> out = Returned s \<and> s = st'\<lparr>tree := tr'\<rparr>)"
proof -
  from assms obtain tr where tr: "makedirs_root (tree st) = Inr tr"
    by (cases "tree st") (auto simp add: download_videos_def)
  define res where "res = download_classes B root cap platform ext
            (drop_duplicates (map (\<lambda>r. (class_id r, class_name r)) (videos st)))
            (st\<lparr>tree := tr, counts := []\<rparr>)"
  have unfold: "out = (case res of
             Raised e st' \<Rightarrow> Raised e st'
           | Returned st' \<Rightarrow>
               if total_count (counts st') > 0 then Returned st'
               else (case rmdir_root (tree st') of
                       Inl e \<Rightarrow> Raised e st'
                     | Inr tr' \<Rightarrow> Returned (st'\<lparr>tree := tr'\<rparr>)))"
    using assms(1) tr by (simp add: download_videos_def res_def)
  have "res \<noteq> Raised e x" if "out = Raised OSError s" for e x
  proof
    assume r: "res = Raised e x"
    with unfold that have "e = OSError" by simp
    with download_classes_raises [OF r [unfolded res_def]] show False by simp
  qed
  moreover have "res \<noteq> Raised e x" if "out = Returned s" for e x
    using unfold that by auto
  ultimately obtain st' where st': "res = Returned st'"
    using assms(2) by (cases res) auto
  have "if 0 < total_count (counts st') then out = Returned s \<and> s = st'
           else case rmdir_root (tree st') of
                  Inl e \<Rightarrow> out = Raised e s \<and> s = st'
                | Inr tr' \<Rightarrow> out = Returned s \<and> s = st'\<lparr>tree := tr'\<rparr>"
    using unfold assms(2) unfolding st' by (auto split: sum.splits if_splits)
  with tr st' show ?thesis unfolding res_def by blast
qed

subsection \<open>The directory of a class without a downloaded row\<close>

lemma count_downloaded_grows:
  assumes "i < length vs" and "\<not> download (vs ! i)"
  shows "count_downloaded c vs \<le> count_downloaded c (vs[i := (vs ! i)\<lparr>download := ok\<rparr>])"
  using count_downloaded_set_flag [OF assms, of c ok] by simp

lemma download_rows_entry:
  assumes dir0: "is_directory (tree st0)" and pend: "pending c rows (videos st0)"
    and own: "name = nm \<longrightarrow> c = cid
        \<and> (\<forall>w row. \<not> fst (attempt B platform ext dir w row)
              \<longrightarrow> fst (snd (attempt B platform ext dir w row)) = [])"
  shows "is_directory (tree (snd (final (download_rows B platform ext dir name cap rows cnt st0))))
       \<and> count_downloaded cid (videos st0)
           \<le> count_downloaded cid
                (videos (snd (final (download_rows B platform ext dir name cap rows cnt st0))))
       \<and> (0 < count_downloaded cid
                 (videos (snd (final (download_rows B platform ext dir name cap rows cnt st0))))
           \<or> class_dir nm (tree (snd (final (download_rows B platform ext dir name cap rows cnt st0))))
              = class_dir nm (tree st0))"
proof -
  define P where "P = (\<lambda>rows (cnt :: int) (st :: 'a fetcher).
      pending c rows (videos st) \<and> is_directory (tree st)
    \<and> count_downloaded cid (videos st0) \<le> count_downloaded cid (videos st)
    \<and> (0 < count_downloaded cid (videos st) \<or> class_dir nm (tree st) = class_dir nm (tree st0)))"
  define R where "R = (\<lambda>out :: (int \<times> 'a fetcher) outcome.
      is_directory (tree (snd (final out)))
    \<and> count_downloaded cid (videos st0) \<le> count_downloaded cid (videos (snd (final out)))
    \<and> (0 < count_downloaded cid (videos (snd (final out)))
        \<or> class_dir nm (tree (snd (final out))) = class_dir nm (tree st0)))"
  have "R (download_rows B platform ext dir name cap rows cnt st0)"
  proof (rule download_rows_rule [where P = P])
    show "P rows cnt st0" using dir0 pend by (simp add: P_def)
  next
    fix i row rows cnt and st :: "'a fetcher"
    assume "P ((i, row) # rows) cnt st"
    then show "P rows cnt st" by (auto simp add: P_def dest: pending_Cons(4))
  next
    fix i row rows cnt and st :: "'a fetcher"
    assume P: "P ((i, row) # rows) cnt st" and nd: "\<not> download row"
    from P have pend': "pending c ((i, row) # rows) (videos st)" and d: "is_directory (tree st)"
      and mono: "count_downloaded cid (videos st0) \<le> count_downloaded cid (videos st)"
      and keep: "0 < count_downloaded cid (videos st)
                 \<or> class_dir nm (tree st) = class_dir nm (tree st0)"
      by (simp_all add: P_def)
    note pc = pending_Cons [OF pend']
    define res where "res = attempt B platform ext dir (network st) row"
    define vs1 where "vs1 = (videos st)[i := (videos st ! i)\<lparr>download := fst res\<rparr>]"
    define tr1 where "tr1 = add_files name (fst (snd res)) (tree st)"
    have nflag: "\<not> download (videos st ! i)" using pc(3) nd by simp
    have grow: "count_downloaded cid (videos st) \<le> count_downloaded cid vs1"
      unfolding vs1_def using pc(1) nflag by (rule count_downloaded_grows)
    have d1: "is_directory tr1" unfolding tr1_def by (rule add_files_entry(1) [OF d])
    have "0 < count_downloaded cid vs1 \<or> class_dir nm tr1 = class_dir nm (tree st0)"
    proof (cases "0 < count_downloaded cid (videos st)")
      case True
      with grow show ?thesis by simp
    next
      case False
      with keep have same: "class_dir nm (tree st) = class_dir nm (tree st0)" by simp
      show ?thesis
      proof (cases "name = nm")
        case False
        then show ?thesis by (simp add: tr1_def add_files_entry(2) [OF d] same)
      next
        case True
        with own have c: "c = cid"
          and left: "\<not> fst res \<longrightarrow> fst (snd res) = []"
          by (simp_all add: res_def)
        show ?thesis
        proof (cases "fst res")
          case True
          have "count_downloaded cid vs1 = count_downloaded cid (videos st) + 1"
            unfolding vs1_def using count_downloaded_set_flag [OF pc(1) nflag, of cid "fst res"]
              pc(2) c True by simp
          moreover have "0 \<le> count_downloaded cid (videos st)" by (simp add: count_downloaded_def)
          ultimately show ?thesis by simp
        next
          case False
          with left have "fst (snd res) = []" by simp
          then show ?thesis by (simp add: tr1_def add_files_entry(3) [OF d] same)
        qed
      qed
    qed
    moreover have "pending c rows vs1"
      unfolding vs1_def using pc(4,5) by (rule pending_update)
    moreover have "count_downloaded cid (videos st0) \<le> count_downloaded cid vs1"
      using mono grow by simp
    ultimately
    show "P rows (cnt + (if fst (attempt B platform ext dir (network st) row) then 1 else 0))
                       (record_download i (video_url row) (file_name platform ext row) dir name
                          (attempt B platform ext dir (network st) row) st)"
      using d1 by (simp add: P_def vs1_def tr1_def res_def)
  qed (simp_all add: P_def R_def)
  then show ?thesis by (simp add: R_def)
qed

lemma download_classes_entry:
  assumes leaves: "\<forall>w row.
        \<not> fst (attempt B platform ext (os_path_join root (str_int cid)) w row)
        \<longrightarrow> fst (snd (attempt B platform ext (os_path_join root (str_int cid)) w row)) = []"
    and "is_directory (tree st)"
    and "0 < count_downloaded cid (videos st) \<or> vacant (str_int cid) (tree st)"
    and "download_classes B root cap platform ext classes st = Returned st'"
  shows "is_directory (tree st')
       \<and> (0 < count_downloaded cid (videos st') \<or> vacant (str_int cid) (tree st'))
       \<and> (0 < count_downloaded cid (videos st) \<or> class_dir (str_int cid) (tree st) = None
              \<or> cid \<in> fst ` set classes
            \<longrightarrow> 0 < count_downloaded cid (videos st')
                \<or> class_dir (str_int cid) (tree st') = None)"
  using assms(2-)
proof (induction classes arbitrary: st)
  case Nil
  then show ?case by simp
next
  case (Cons a classes)
  define nm where "nm = str_int cid"
  obtain c cls where a: "a = (c, cls)" by (cases a)
  define n where "n = str_int c"
  have nnm: "n = nm \<longleftrightarrow> c = cid" by (auto simp add: n_def nm_def dest: str_int_inject)
  from Cons.prems(3) obtain tr where tr: "makedirs_class n (tree st) = Inr tr"
    by (cases "makedirs_class n (tree st)") (simp_all add: a n_def)
  define st0 where "st0 = st\<lparr>tree := tr\<rparr>"
  define out where "out = download_rows B platform ext (os_path_join root n) n cap
                  (videos_by_class c (videos st0)) (count_downloaded c (videos st0)) st0"
  have unfold: "download_classes B root cap platform ext (a # classes) st
        = (case out of
             Raised e (cnt, st') \<Rightarrow> Raised e st'
           | Returned (cnt, st') \<Rightarrow>
               download_classes B root cap platform ext classes
                 (st'\<lparr>counts := counts st' @ [(c, cls, cnt)],
                      tree := rmdir_class n (tree st')\<rparr>))"
    using tr unfolding a out_def st0_def n_def by simp
  from Cons.prems(3) obtain cnt st1 where out: "out = Returned (cnt, st1)"
    unfolding unfold by (cases out) (auto split: prod.splits)
  define st2 where "st2 = st1\<lparr>counts := counts st1 @ [(c, cls, cnt)],
                      tree := rmdir_class n (tree st1)\<rparr>"
  have run: "download_classes B root cap platform ext classes st2 = Returned st'"
    using Cons.prems(3) unfolding unfold out by (simp add: st2_def)
  note m = makedirs_class_entry(1) [OF Cons.prems(1) tr]
    makedirs_class_entry(2) [OF Cons.prems(1) tr, where nm = nm]
  have d0: "is_directory (tree st0)" using m(1) by (simp add: st0_def)
  have own: "n = nm \<longrightarrow> c = cid
        \<and> (\<forall>w row. \<not> fst (attempt B platform ext (os_path_join root n) w row)
              \<longrightarrow> fst (snd (attempt B platform ext (os_path_join root n) w row)) = [])"
    using leaves nnm by (auto simp add: nm_def)
  note download_rows_entry [OF d0 pending_videos_by_class own, where cap = cap
         and cnt = "count_downloaded c (videos st0)", folded out_def, unfolded out]
  then have r: "is_directory (tree st1)"
    "count_downloaded cid (videos st) \<le> count_downloaded cid (videos st1)"
    "0 < count_downloaded cid (videos st1) \<or> class_dir nm (tree st1) = class_dir nm tr"
    by (simp_all add: st0_def)
  note rm = rmdir_class_entry(1) [OF r(1), where n = n]
    rmdir_class_entry(2) [OF r(1), where n = n and nm = nm]
  have d2: "is_directory (tree st2)" using rm(1) by (simp add: st2_def)
  have v2: "videos st2 = videos st1" by (simp add: st2_def)
  have t2: "class_dir nm (tree st2)
      = (if n = nm \<and> class_dir nm (tree st1) = Some (Dir []) then None
         else class_dir nm (tree st1))"
    using rm(2) by (simp add: st2_def)
  have k2: "0 < count_downloaded cid (videos st2)
      \<or> class_dir nm (tree st2) = (if n = nm then None else class_dir nm (tree st))"
  proof (cases "0 < count_downloaded cid (videos st1)")
    case True
    then show ?thesis by (simp add: v2)
  next
    case False
    with r(2) have "\<not> 0 < count_downloaded cid (videos st)" by simp
    with Cons.prems(2) have "vacant nm (tree st)" by (simp add: nm_def)
    moreover from False r(3) have "class_dir nm (tree st1) = class_dir nm tr" by simp
    ultimately show ?thesis using t2 m(2) by (auto simp add: vacant_def)
  qed
  have vac2: "0 < count_downloaded cid (videos st2) \<or> vacant (str_int cid) (tree st2)"
  proof (cases "0 < count_downloaded cid (videos st2)")
    case True
    then show ?thesis by simp
  next
    case False
    with k2 have e: "class_dir nm (tree st2) = (if n = nm then None else class_dir nm (tree st))"
      by simp
    from False r(2) have "\<not> 0 < count_downloaded cid (videos st)" by (simp add: v2)
    with Cons.prems(2) have "vacant nm (tree st)" by (simp add: nm_def)
    with e show ?thesis by (auto simp add: vacant_def nm_def)
  qed
  note IH = Cons.IH [OF d2 vac2 run]
  have "0 < count_downloaded cid (videos st') \<or> class_dir (str_int cid) (tree st') = None"
    if pre: "0 < count_downloaded cid (videos st) \<or> class_dir (str_int cid) (tree st) = None
              \<or> cid \<in> fst ` set (a # classes)"
  proof -
    have "0 < count_downloaded cid (videos st2) \<or> class_dir (str_int cid) (tree st2) = None
              \<or> cid \<in> fst ` set classes"
    proof (cases "0 < count_downloaded cid (videos st2)")
      case True
      then show ?thesis by simp
    next
      case False
      with k2 have e: "class_dir nm (tree st2) = (if n = nm then None else class_dir nm (tree st))"
        by simp
      from False r(2) have nk: "\<not> 0 < count_downloaded cid (videos st)" by (simp add: v2)
      show ?thesis
      proof (cases "c = cid")
        case True
        with e nnm show ?thesis by (simp add: nm_def)
      next
        case False
        with pre nk a have "class_dir (str_int cid) (tree st) = None \<or> cid \<in> fst ` set classes"
          by auto
        with e False nnm show ?thesis by (auto simp add: nm_def)
      qed
    qed
    with IH [THEN conjunct2, THEN conjunct2] show ?thesis by (rule mp)
  qed
  with IH [THEN conjunct1] IH [THEN conjunct2, THEN conjunct1] show ?case by blast
qed

text \<open>
  Claim C6, as amended. Take a run of \<^verbatim>\<open>download_videos\<close> that returns, and a class of
  the ledger of which no row is marked downloaded after the run: no file on disk had
  matched a row of it, and every download attempted for it failed. When the directory of
  the class was missing or empty at the start, and a download into it that fails leaves
  no file there, the directory does not exist after the run. And when the total of the
  run is not positive, the output directory does not exist either.
\<close>

theorem failed_class_leaves_no_directory:
  assumes run: "download_videos B root cap platform ext st = Returned s"
  shows "(vacant (str_int cid) (tree st)
          \<and> (\<forall>w row. \<not> fst (attempt B platform ext (os_path_join root (str_int cid)) w row)
                 \<longrightarrow> fst (snd (attempt B platform ext (os_path_join root (str_int cid)) w row))
                      = [])
          \<and> cid \<in> class_id ` set (videos st)
          \<and> count_downloaded cid (videos s) = 0
          \<longrightarrow> class_dir (str_int cid) (tree s) = None)
       \<and> (total_count (counts s) \<le> 0 \<longrightarrow> tree s = Missing)"
proof -
  define nm where "nm = str_int cid"
  define classes where
    "classes = drop_duplicates (map (\<lambda>r. (class_id r, class_name r)) (videos st))"
  have "Returned s = Returned s \<or> Returned s = Raised OSError s" by simp
  from download_videos_ends [OF run this] obtain tr st' where
    tr: "makedirs_root (tree st) = Inr tr"
    and loop: "download_classes B root cap platform ext classes (st\<lparr>tree := tr, counts := []\<rparr>)
               = Returned st'"
    and last: "if 0 < total_count (counts st') then s = st'
           else case rmdir_root (tree st') of
                  Inl e \<Rightarrow> False
                | Inr tr' \<Rightarrow> s = st'\<lparr>tree := tr'\<rparr>"
    unfolding classes_def by (auto split: if_splits sum.splits)
  have s_tree: "tree s = tree st' \<or> tree s = Missing"
    using last by (auto split: if_splits sum.splits dest: rmdir_root_cases(1))
  have s_videos: "videos s = videos st'"
    using last by (auto split: if_splits sum.splits)
  have s_counts: "counts s = counts st'"
    using last by (auto split: if_splits sum.splits)
  have class_part: "class_dir nm (tree s) = None"
    if v: "vacant nm (tree st)"
      and leaves: "\<forall>w row. \<not> fst (attempt B platform ext (os_path_join root nm) w row)
                 \<longrightarrow> fst (snd (attempt B platform ext (os_path_join root nm) w row)) = []"
      and c: "cid \<in> class_id ` set (videos st)"
      and none: "count_downloaded cid (videos s) = 0"
  proof -
    note mr = makedirs_root_entry(1) [OF tr] makedirs_root_entry(2) [OF tr, where nm = nm]
    have d0: "is_directory (tree (st\<lparr>tree := tr, counts := []\<rparr>))" using mr(1) by simp
    have v0: "0 < count_downloaded cid (videos (st\<lparr>tree := tr, counts := []\<rparr>))
              \<or> vacant (str_int cid) (tree (st\<lparr>tree := tr, counts := []\<rparr>))"
      using v mr(2) by (simp add: vacant_def nm_def)
    from c obtain r where "r \<in> set (videos st)" "class_id r = cid" by auto
    then have "(cid, class_name r) \<in> set classes" by (force simp add: classes_def)
    then have mem: "cid \<in> fst ` set classes" by force
    note E = download_classes_entry [OF leaves [unfolded nm_def] d0 v0 loop]
    from mem have "0 < count_downloaded cid (videos (st\<lparr>tree := tr, counts := []\<rparr>))
        \<or> class_dir (str_int cid) (tree (st\<lparr>tree := tr, counts := []\<rparr>)) = None
        \<or> cid \<in> fst ` set classes"
      by simp
    with E [THEN conjunct2, THEN conjunct2]
    have "0 < count_downloaded cid (videos st') \<or> class_dir (str_int cid) (tree st') = None"
      by (rule mp)
    with none s_videos have "class_dir nm (tree st') = None" by (simp add: nm_def)
    with s_tree show ?thesis by (auto simp add: class_dir_def)
  qed
  have root_part: "tree s = Missing" if "total_count (counts s) \<le> 0"
    using last that s_counts
    by (auto split: if_splits sum.splits dest: rmdir_root_cases(1))
  note class_part' = class_part [unfolded nm_def]
  show ?thesis
  proof (intro conjI impI)
    assume h: "vacant (str_int cid) (tree st)
          \<and> (\<forall>w row. \<not> fst (attempt B platform ext (os_path_join root (str_int cid)) w row)
                 \<longrightarrow> fst (snd (attempt B platform ext (os_path_join root (str_int cid)) w row))
                      = [])
          \<and> cid \<in> class_id ` set (videos st)
          \<and> count_downloaded cid (videos s) = 0"
    show "class_dir (str_int cid) (tree s) = None"
      by (rule class_part' [OF h [THEN conjunct1] h [THEN conjunct2, THEN conjunct1]
                h [THEN conjunct2, THEN conjunct2, THEN conjunct1]
                h [THEN conjunct2, THEN conjunct2, THEN conjunct2]])
  next
    assume "total_count (counts s) \<le> 0"
    then show "tree s = Missing" by (rule root_part)
  qed
qed

text \<open>
  Claim C6 as stated fails. The directory of class 0 holds a file that matches no row,
  and the only download for class 0 fails, while the one for class 1 succeeds. The run
  returns, and the directory of class 0 is still there with its file: \<^verbatim>\<open>os.rmdir\<close>
  removes an empty directory only.
\<close>

theorem stray_file_keeps_class_directory:
  "check_downloaded True (Directory [(''0'', Dir [''notes.txt''])])
       (videos (two_class_state (Directory [(''0'', Dir [''notes.txt''])])))
     = Inr (videos (two_class_state (Directory [(''0'', Dir [''notes.txt''])])))
   \<and> download_videos (url_backends ''https://good'') ''out'' None ''youtube'' ''.mp4''
       (two_class_state (Directory [(''0'', Dir [''notes.txt''])]))
     = Returned
         \<lparr>videos = [\<lparr>class_id = 0, class_name = ''cat'', video_id = 0, video_title = ''a'',
                       video_url = ''https://bad'', video_name = ''v'', download = False\<rparr>,
                     \<lparr>class_id = 1, class_name = ''dog'', video_id = 0, video_title = ''b'',
                       video_url = ''https://good'', video_name = ''w'', download = True\<rparr>],
            counts = [(0, ''cat'', 0), (1, ''dog'', 1)],
            tree = Directory [(''0'', Dir [''notes.txt'']), (''1'', Dir [''w.mp4''])],
            requests = [(0, ''https://bad'', ''v.mp4'', ''out/0''),
                        (1, ''https://good'', ''w.mp4'', ''out/1'')],
            network = ()\<rparr>"
  by code_simp

theorem failed_class_leaves_no_directory_witness:
  "vacant (str_int 0) (tree (two_class_state (Directory [(''0'', Dir [])])))
   \<and> 0 \<in> class_id ` set (videos (two_class_state (Directory [(''0'', Dir [])])))
   \<and> download_videos (url_backends ''https://good'') ''out'' None ''youtube'' ''.mp4''
       (two_class_state (Directory [(''0'', Dir [])]))
     = Returned
         \<lparr>videos = [\<lparr>class_id = 0, class_name = ''cat'', video_id = 0, video_title = ''a'',
                       video_url = ''https://bad'', video_name = ''v'', download = False\<rparr>,
                     \<lparr>class_id = 1, class_name = ''dog'', video_id = 0, video_title = ''b'',
                       video_url = ''https://good'', video_name = ''w'', download = True\<rparr>],
            counts = [(0, ''cat'', 0), (1, ''dog'', 1)],
            tree = Directory [(''1'', Dir [''w.mp4''])],
            requests = [(0, ''https://bad'', ''v.mp4'', ''out/0''),
                        (1, ''https://good'', ''w.mp4'', ''out/1'')],
            network = ()\<rparr>
   \<and> class_dir (str_int 0)
        (tree (final (download_videos (url_backends ''https://good'') ''out'' None ''youtube''
           ''.mp4'' (two_class_state (Directory [(''0'', Dir [])]))))) = None
   \<and> tree (final (download_videos (steady_backends False) ''out'' None ''youtube'' ''.mp4''
           (flagged_state [False] Missing))) = Missing"
proof -
  define s where "s = \<lparr>videos = [\<lparr>class_id = 0, class_name = ''cat'', video_id = 0,
                       video_title = ''a'',
                       video_url = ''https://bad'', video_name = ''v'', download = False\<rparr>,
                     \<lparr>class_id = 1, class_name = ''dog'', video_id = 0, video_title = ''b'',
                       video_url = ''https://good'', video_name = ''w'', download = True\<rparr>],
            counts = [(0, ''cat'', 0), (1, ''dog'', 1)],
            tree = Directory [(''1'', Dir [''w.mp4''])],
            requests = [(0, ''https://bad'', ''v.mp4'', ''out/0''),
                        (1, ''https://good'', ''w.mp4'', ''out/1'')],
            network = ()\<rparr>"
  have run: "download_videos (url_backends ''https://good'') ''out'' None ''youtube'' ''.mp4''
       (two_class_state (Directory [(''0'', Dir [])])) = Returned s"
    unfolding s_def by code_simp
  have v: "vacant (str_int 0) (tree (two_class_state (Directory [(''0'', Dir [])])))"
    by code_simp
  have c: "0 \<in> class_id ` set (videos (two_class_state (Directory [(''0'', Dir [])])))"
    by (simp add: two_class_state_def)
  have l: "\<forall>w row. \<not> fst (attempt (url_backends ''https://good'') ''youtube'' ''.mp4''
                          (os_path_join ''out'' (str_int 0)) w row)
                 \<longrightarrow> fst (snd (attempt (url_backends ''https://good'') ''youtube'' ''.mp4''
                          (os_path_join ''out'' (str_int 0)) w row)) = []"
    by (simp add: attempt_def download_youtube_video_def url_backends_def url_backend_def)
  have n: "count_downloaded 0 (videos s) = 0"
    by (simp add: s_def count_downloaded_def)
  note T = failed_class_leaves_no_directory [OF run, where cid = 0, THEN conjunct1]
  from v l c n have "vacant (str_int 0) (tree (two_class_state (Directory [(''0'', Dir [])])))
          \<and> (\<forall>w row. \<not> fst (attempt (url_backends ''https://good'') ''youtube'' ''.mp4''
                          (os_path_join ''out'' (str_int 0)) w row)
                 \<longrightarrow> fst (snd (attempt (url_backends ''https://good'') ''youtube'' ''.mp4''
                          (os_path_join ''out'' (str_int 0)) w row)) = [])
          \<and> 0 \<in> class_id ` set (videos (two_class_state (Directory [(''0'', Dir [])])))
          \<and> count_downloaded 0 (videos s) = 0"
    by (intro conjI)
  with T have first: "class_dir (str_int 0) (tree s) = None" by (rule mp)
  define s' where "s' = \<lparr>videos = [one_video ''v'' False], counts = [(0, ''cat'', 0)],
            tree = Missing,
            requests = [(0, ''https://www.youtube.com/watch?v=a.b&t=1'', ''v.mp4'', ''out/0'')],
            network = ()\<rparr>"
  have run': "download_videos (steady_backends False) ''out'' None ''youtube'' ''.mp4''
           (flagged_state [False] Missing) = Returned s'"
    unfolding s'_def by code_simp
  have "total_count (counts s') \<le> 0" by (simp add: s'_def total_count_def)
  with failed_class_leaves_no_directory [OF run', where cid = 0, THEN conjunct2]
  have second: "tree s' = Missing" by (rule mp)
  have "final (download_videos (url_backends ''https://good'') ''out'' None ''youtube'' ''.mp4''
       (two_class_state (Directory [(''0'', Dir [])]))) = s"
    by (simp add: run)
  moreover have "final (download_videos (steady_backends False) ''out'' None ''youtube'' ''.mp4''
           (flagged_state [False] Missing)) = s'"
    by (simp add: run')
  ultimately show ?thesis using v c first second run unfolding s_def
    by (intro conjI) simp_all
qed

subsection \<open>Deterministic backends\<close>




subsection \<open>Rows of the other classes\<close>




subsection \<open>A pass settles its class, and a settled class is left alone\<close>










subsection \<open>A second run\<close>





end
